theory Spec2Isabelle
  imports Main
begin

section \<open>The Pintos thread scheduler (threads/thread.c)\<close>

text \<open>
  A shallow embedding of \<^verbatim>\<open>src/threads/thread.c\<close>: the thread record, the
  scheduler's global state, and the functions of the file as state transformers that
  return either an error (a failed \<^verbatim>\<open>ASSERT\<close>, a read through a list sentinel) or
  the next state.
\<close>

subsection \<open>C integers\<close>

text \<open>
  C's \<^verbatim>\<open>int\<close> is 32 bits wide here (the fixed-point values are 32-bit signed
  integers). Values are HOL integers; \<open>s32\<close> writes out the wrap-around of a result
  that leaves the range, and \<open>tdiv\<close>, \<open>tmod\<close> are C's \<^verbatim>\<open>/\<close> and \<^verbatim>\<open>%\<close>, which
  truncate towards zero.
\<close>

definition s32 :: "int \<Rightarrow> int" where
  "s32 x = (x + 2147483648) mod 4294967296 - 2147483648"

definition tdiv :: "int \<Rightarrow> int \<Rightarrow> int" where
  "tdiv a b = sgn a * sgn b * (\<bar>a\<bar> div \<bar>b\<bar>)"

definition tmod :: "int \<Rightarrow> int \<Rightarrow> int" where
  "tmod a b = a - b * tdiv a b"

subsection \<open>Constants of threads/thread.h and devices/timer.h\<close>

text \<open>
  Modelled from the spec: \<^verbatim>\<open>threads/thread.h\<close> and \<^verbatim>\<open>devices/timer.h\<close> are absent.
  The spec gives \<^verbatim>\<open>PRI_MIN = 0\<close>, \<^verbatim>\<open>PRI_MAX = 63\<close>, \<^verbatim>\<open>PRI_DEFAULT = 31\<close>, 64 ready
  bands (\<^verbatim>\<open>NQ\<close>) and \<^verbatim>\<open>TIMER_FREQ = 100\<close> (its default). \<^verbatim>\<open>TIME_SLICE\<close> and
  \<^verbatim>\<open>THREAD_MAGIC\<close> are defined in thread.c itself.
\<close>

definition PRI_MIN :: int where "PRI_MIN = 0"
definition PRI_DEFAULT :: int where "PRI_DEFAULT = 31"
definition PRI_MAX :: int where "PRI_MAX = 63"
definition NQ :: nat where "NQ = 64"
definition TIMER_FREQ :: int where "TIMER_FREQ = 100"
definition TIME_SLICE :: int where "TIME_SLICE = 4"
definition THREAD_MAGIC :: int where "THREAD_MAGIC = 0xcd6abf4b"

subsection \<open>Fixed-point arithmetic (fixpoint.h)\<close>

text \<open>
  Modelled from the spec: \<^verbatim>\<open>fixpoint.h\<close> is absent. Section 4.A of the spec: a signed
  fixed-point format with 17 integer bits and 14 fractional bits, values held as 32-bit
  signed integers scaled by \<open>2^14\<close>; conversion of an integer to fixed point, conversion
  back with round-to-nearest (adds or subtracts half the scale before truncating),
  fixed plus integer, fixed times and divided by integer, fixed times and divided by
  fixed; division truncates towards zero; overflow is not trapped (the result wraps to
  32 bits; the product and the scaled dividend of the fixed-by-fixed operations are
  taken exactly before the division, as in a 64-bit intermediate).
\<close>

definition FP_F :: int where "FP_F = 16384"

definition convert_fp :: "int \<Rightarrow> int" where
  "convert_fp n = s32 (n * FP_F)"

definition convert_int_near :: "int \<Rightarrow> int" where
  "convert_int_near x =
     (if x \<ge> 0 then tdiv (s32 (x + FP_F div 2)) FP_F
      else tdiv (s32 (x - FP_F div 2)) FP_F)"

definition add_fp_int :: "int \<Rightarrow> int \<Rightarrow> int" where
  "add_fp_int x n = s32 (x + s32 (n * FP_F))"

definition mul_fp_int :: "int \<Rightarrow> int \<Rightarrow> int" where
  "mul_fp_int x n = s32 (x * n)"

definition div_fp_int :: "int \<Rightarrow> int \<Rightarrow> int" where
  "div_fp_int x n = s32 (tdiv x n)"

definition mul_fp :: "int \<Rightarrow> int \<Rightarrow> int" where
  "mul_fp x y = s32 (tdiv (x * y) FP_F)"

definition div_fp :: "int \<Rightarrow> int \<Rightarrow> int" where
  "div_fp x y = s32 (tdiv (x * FP_F) y)"

subsection \<open>The thread record\<close>

datatype thread_status =
  THREAD_RUNNING | THREAD_READY | THREAD_BLOCKED | THREAD_DYING | THREAD_NASCENT

text \<open>
  The fields of \<^verbatim>\<open>struct thread\<close> that thread.c reads and writes. A thread is named
  by the address of its page (a \<open>nat\<close>); \<open>parent\<close> is such a handle. The list hooks
  \<^verbatim>\<open>elem\<close> and \<^verbatim>\<open>allelem\<close> are the thread's membership in the lists of the global state.
  The declaration of \<^verbatim>\<open>ticks_wait\<close> is in the absent thread.h; it is assigned from an
  \<^verbatim>\<open>int64_t\<close> and is an unbounded integer here.
\<close>

record thread =
  tid :: int
  status :: thread_status
  name :: string
  priority :: int
  priority_orig :: int
  nice :: int
  recent_cpu :: int
  ticks_wait :: int
  num_lock_donors :: int
  parent :: nat
  magic :: int

subsection \<open>The priority engine\<close>

text \<open>\<^verbatim>\<open>recalculate_priority\<close>, thread.c lines 163-174. The two \<^verbatim>\<open>-\<close> are C subtractions.\<close>

definition recalculate_priority :: "thread \<Rightarrow> int" where
  "recalculate_priority t =
     (let priority = convert_int_near
            (s32 (s32 (convert_fp PRI_MAX - div_fp_int (recent_cpu t) 4)
                  - mul_fp_int (convert_fp (nice t)) 2))
      in if priority < PRI_MIN then PRI_MIN
         else if priority > PRI_MAX then PRI_MAX
         else priority)"

subsection \<open>The scheduler's global state\<close>

datatype error = Assertion_failed | Sentinel_read | Division_by_zero

text \<open>
  The globals of thread.c, the thread records of memory (\<open>threads\<close>, by page address),
  and what the collaborators hold: \<open>running\<close> is the thread whose stack the CPU is on
  (\<^verbatim>\<open>running_thread ()\<close>), \<open>intr_off\<close> is \<^verbatim>\<open>intr_get_level () == INTR_OFF\<close>, \<open>in_intr\<close>
  is \<^verbatim>\<open>intr_context ()\<close>, \<open>yield_on_return\<close> is set by \<^verbatim>\<open>intr_yield_on_return ()\<close>,
  \<open>freed\<close> collects the pages given to \<^verbatim>\<open>palloc_free_page\<close>. A list of the state holds
  the threads whose hook (\<^verbatim>\<open>elem\<close>, or \<^verbatim>\<open>allelem\<close> for \<open>all_list\<close>) is linked into it, in
  order. \<open>idle_thread\<close> is \<open>None\<close> while the C pointer is \<^verbatim>\<open>NULL\<close>.
\<close>

record sched =
  threads :: "nat \<Rightarrow> thread"
  running :: nat
  ready_list :: "nat list"
  ready_queues :: "int \<Rightarrow> nat list"
  waiting_list :: "nat list"
  all_list :: "nat list"
  idle_thread :: "nat option"
  initial_thread :: nat
  load_avg :: int
  thread_mlfqs :: bool
  idle_ticks :: int
  kernel_ticks :: int
  total_ticks :: int
  thread_ticks :: int
  next_tid :: int
  intr_off :: bool
  in_intr :: bool
  yield_on_return :: bool
  freed :: "nat list"

definition upd_thread :: "nat \<Rightarrow> (thread \<Rightarrow> thread) \<Rightarrow> sched \<Rightarrow> sched" where
  "upd_thread t f s = s\<lparr>threads := (threads s)(t := f (threads s t))\<rparr>"

text \<open>\<^verbatim>\<open>is_thread\<close>, lines 697-701; a handle is never \<^verbatim>\<open>NULL\<close>.\<close>

definition is_thread :: "sched \<Rightarrow> nat \<Rightarrow> bool" where
  "is_thread s t = (magic (threads s t) = THREAD_MAGIC)"

text \<open>\<^verbatim>\<open>is_main_thread\<close>, lines 703-707: a comparison of the name.\<close>

definition is_main_thread :: "thread \<Rightarrow> bool" where
  "is_main_thread t = (name t = ''main'')"

text \<open>\<^verbatim>\<open>thread_current\<close>, lines 439-453.\<close>

definition thread_current :: "sched \<Rightarrow> error + nat" where
  "thread_current s =
     (let t = running s in
      if \<not> is_thread s t then Inl Assertion_failed
      else if status (threads s t) \<noteq> THREAD_RUNNING then Inl Assertion_failed
      else Inr t)"

subsection \<open>Lists (lib/kernel/list.h)\<close>

text \<open>
  Modelled from the spec: \<^verbatim>\<open>list.h\<close> is absent. Insertion appends; removal unlinks the
  hook from the list it is in; selection in the single ready list computes the
  maximum-priority element by a linear scan, ties broken by list order. On an empty
  list there is no element to select and the scan ends on the list's sentinel, which
  is \<open>None\<close> here.
\<close>

definition list_push_back :: "nat list \<Rightarrow> nat \<Rightarrow> nat list" where
  "list_push_back xs t = xs @ [t]"

fun list_max :: "(nat \<Rightarrow> int) \<Rightarrow> nat list \<Rightarrow> nat option" where
  "list_max key [] = None"
| "list_max key (x # xs) = Some (foldl (\<lambda>m e. if key m < key e then e else m) x xs)"

text \<open>
  \<^verbatim>\<open>list_remove (&t->elem)\<close>: the hook \<^verbatim>\<open>elem\<close> serves the ready list, the ready bands
  and the waiting list; unlinking it takes the thread out of the one it is in.
\<close>

definition list_remove_elem :: "nat \<Rightarrow> sched \<Rightarrow> sched" where
  "list_remove_elem t s =
     s\<lparr>ready_list := removeAll t (ready_list s),
       ready_queues := (\<lambda>i. removeAll t (ready_queues s i)),
       waiting_list := removeAll t (waiting_list s)\<rparr>"

definition list_remove_allelem :: "nat \<Rightarrow> sched \<Rightarrow> sched" where
  "list_remove_allelem t s = s\<lparr>all_list := removeAll t (all_list s)\<rparr>"

text \<open>
  The insertion into the ready structure that thread.c writes out at each place:
  \<^verbatim>\<open>if (!thread_mlfqs) list_push_back (&ready_list, &t->elem);
  else list_push_back (&ready_queues[t->priority], &t->elem);\<close>
\<close>

definition push_ready :: "nat \<Rightarrow> sched \<Rightarrow> sched" where
  "push_ready t s =
     (if \<not> thread_mlfqs s then s\<lparr>ready_list := list_push_back (ready_list s) t\<rparr>
      else s\<lparr>ready_queues := (ready_queues s)
              (priority (threads s t) :=
                 list_push_back (ready_queues s (priority (threads s t))) t)\<rparr>)"

subsection \<open>The scheduler core\<close>

text \<open>The loop of \<^verbatim>\<open>next_thread_to_run\<close> over the bands, from \<open>i\<close> down to 0.\<close>

fun front_band :: "(int \<Rightarrow> nat list) \<Rightarrow> nat \<Rightarrow> nat option" where
  "front_band q 0 = (case q 0 of [] \<Rightarrow> None | x # xs \<Rightarrow> Some x)"
| "front_band q (Suc i) =
     (case q (int (Suc i)) of [] \<Rightarrow> front_band q i | x # xs \<Rightarrow> Some x)"

text \<open>
  \<^verbatim>\<open>next_thread_to_run\<close>, lines 778-805: the thread chosen (the idle thread, which may
  still be \<^verbatim>\<open>NULL\<close>, when nothing is ready) and the state with it unlinked.
\<close>

definition next_thread_to_run :: "sched \<Rightarrow> nat option \<times> sched" where
  "next_thread_to_run s =
     (if \<not> thread_mlfqs s then
        (case list_max (\<lambda>t. priority (threads s t)) (ready_list s) of
           None \<Rightarrow> (idle_thread s, s)
         | Some m \<Rightarrow> (Some m, list_remove_elem m s))
      else
        (case front_band (ready_queues s) (nat PRI_MAX) of
           None \<Rightarrow> (idle_thread s, s)
         | Some m \<Rightarrow> (Some m, list_remove_elem m s)))"

text \<open>
  \<^verbatim>\<open>thread_schedule_tail\<close>, lines 823-855, run by the thread that has just been
  switched to (\<open>running\<close> is already that thread).
\<close>

definition thread_schedule_tail :: "sched \<Rightarrow> nat option \<Rightarrow> error + sched" where
  "thread_schedule_tail s prev =
     (let cur = running s in
      if \<not> intr_off s then Inl Assertion_failed
      else
        let s1 = (upd_thread cur (\<lambda>t. t\<lparr>status := THREAD_RUNNING\<rparr>) s)\<lparr>thread_ticks := 0\<rparr>;
            s2 = (if num_lock_donors (threads s1 cur) = 0 \<and> \<not> thread_mlfqs s1
                  then upd_thread cur (\<lambda>t. t\<lparr>priority := priority_orig t\<rparr>) s1
                  else s1)
        in case prev of
             None \<Rightarrow> Inr s2
           | Some p \<Rightarrow>
               if status (threads s2 p) = THREAD_DYING \<and> p \<noteq> initial_thread s2
               then (if p = cur then Inl Assertion_failed
                     else Inr (s2\<lparr>freed := p # freed s2\<rparr>))
               else Inr s2)"

text \<open>
  \<^verbatim>\<open>schedule\<close>, lines 864-878. \<^verbatim>\<open>switch_threads (cur, next)\<close> moves the CPU to \<open>next\<close>,
  where it returns \<open>cur\<close> as \<open>prev\<close>; the state returned is the one in which \<open>next\<close>
  leaves \<^verbatim>\<open>thread_schedule_tail\<close>. What the caller of \<^verbatim>\<open>schedule\<close> has after the call
  runs when that caller is switched to again, so each caller below goes on only when
  it is still the running thread.
\<close>

definition schedule :: "sched \<Rightarrow> error + sched" where
  "schedule s =
     (let cur = running s;
          next = fst (next_thread_to_run s);
          s1 = snd (next_thread_to_run s)
      in if \<not> intr_off s1 then Inl Assertion_failed
         else if status (threads s1 cur) = THREAD_RUNNING then Inl Assertion_failed
         else case next of
                None \<Rightarrow> Inl Assertion_failed
              | Some n \<Rightarrow>
                  if \<not> is_thread s1 n then Inl Assertion_failed
                  else if cur \<noteq> n then thread_schedule_tail (s1\<lparr>running := n\<rparr>) (Some cur)
                  else thread_schedule_tail s1 None)"

subsection \<open>Blocking, waiting, unblocking, yielding, exiting\<close>

text \<open>\<^verbatim>\<open>thread_wait\<close>, lines 354-366.\<close>

definition thread_wait :: "sched \<Rightarrow> int \<Rightarrow> error + sched" where
  "thread_wait s ticks =
     (case thread_current s of
        Inl e \<Rightarrow> Inl e
      | Inr cur \<Rightarrow>
          if in_intr s then Inl Assertion_failed
          else if \<not> intr_off s then Inl Assertion_failed
          else
            let s1 = upd_thread cur (\<lambda>t. t\<lparr>status := THREAD_BLOCKED\<rparr>) s;
                s2 = upd_thread cur (\<lambda>t. t\<lparr>ticks_wait := ticks\<rparr>) s1;
                s3 = s2\<lparr>waiting_list := list_push_back (waiting_list s2) cur\<rparr>
            in schedule s3)"

text \<open>\<^verbatim>\<open>thread_block\<close>, lines 374-382.\<close>

definition thread_block :: "sched \<Rightarrow> error + sched" where
  "thread_block s =
     (if in_intr s then Inl Assertion_failed
      else if \<not> intr_off s then Inl Assertion_failed
      else case thread_current s of
             Inl e \<Rightarrow> Inl e
           | Inr cur \<Rightarrow> schedule (upd_thread cur (\<lambda>t. t\<lparr>status := THREAD_BLOCKED\<rparr>) s))"

text \<open>
  \<^verbatim>\<open>thread_unblock\<close>, lines 392-427. \<^verbatim>\<open>intr_set_level (old_level)\<close> at the end is run by
  the caller once it is the running thread.
\<close>

definition thread_unblock :: "sched \<Rightarrow> nat \<Rightarrow> error + sched" where
  "thread_unblock s t =
     (if \<not> is_thread s t then Inl Assertion_failed
      else if \<not> (status (threads s t) = THREAD_BLOCKED \<or> status (threads s t) = THREAD_NASCENT)
      then Inl Assertion_failed
      else
        let old_level = intr_off s;
            s1 = s\<lparr>intr_off := True\<rparr>
        in case thread_current s1 of
             Inl e \<Rightarrow> Inl e
           | Inr cur \<Rightarrow>
               let s2 = push_ready t s1;
                   s3 = upd_thread t (\<lambda>r. r\<lparr>status := THREAD_READY\<rparr>) s2
               in if priority (threads s3 t) > priority (threads s3 cur) \<and> \<not> in_intr s3 then
                    let s4 = upd_thread cur (\<lambda>r. r\<lparr>status := THREAD_READY\<rparr>) s3;
                        s5 = push_ready cur s4
                    in case schedule s5 of
                         Inl e \<Rightarrow> Inl e
                       | Inr s6 \<Rightarrow>
                           Inr (if running s6 = cur then s6\<lparr>intr_off := old_level\<rparr> else s6)
                  else Inr (s3\<lparr>intr_off := old_level\<rparr>))"

text \<open>\<^verbatim>\<open>thread_exit\<close>, lines 464-481 (without \<^verbatim>\<open>USERPROG\<close>); it ends in \<^verbatim>\<open>NOT_REACHED\<close>.\<close>

definition thread_exit :: "sched \<Rightarrow> error + sched" where
  "thread_exit s =
     (if in_intr s then Inl Assertion_failed
      else
        let s1 = s\<lparr>intr_off := True\<rparr>
        in case thread_current s1 of
             Inl e \<Rightarrow> Inl e
           | Inr cur \<Rightarrow>
               let s2 = list_remove_allelem cur s1;
                   s3 = upd_thread cur (\<lambda>t. t\<lparr>status := THREAD_DYING\<rparr>) s2
               in case schedule s3 of
                    Inl e \<Rightarrow> Inl e
                  | Inr s4 \<Rightarrow> if running s4 = cur then Inl Assertion_failed else Inr s4)"

text \<open>\<^verbatim>\<open>thread_yield\<close>, lines 485-505.\<close>

definition thread_yield :: "sched \<Rightarrow> error + sched" where
  "thread_yield s =
     (case thread_current s of
        Inl e \<Rightarrow> Inl e
      | Inr cur \<Rightarrow>
          if in_intr s then Inl Assertion_failed
          else
            let old_level = intr_off s;
                s1 = s\<lparr>intr_off := True\<rparr>;
                s2 = (if Some cur \<noteq> idle_thread s1 then push_ready cur s1 else s1);
                s3 = upd_thread cur (\<lambda>t. t\<lparr>status := THREAD_READY\<rparr>) s2
            in case schedule s3 of
                 Inl e \<Rightarrow> Inl e
               | Inr s4 \<Rightarrow> Inr (if running s4 = cur then s4\<lparr>intr_off := old_level\<rparr> else s4))"

subsection \<open>Creating threads\<close>

text \<open>
  \<^verbatim>\<open>init_thread\<close>, lines 711-758. \<^verbatim>\<open>memset\<close> zeroes the record; \<^verbatim>\<open>strlcpy\<close> copies at
  most 15 characters of the name (the spec bounds the name by 16 bytes). \<open>t\<close> is the
  page of the new thread. \<^verbatim>\<open>is_main_thread (t)\<close> reads the name just copied;
  \<^verbatim>\<open>strcmp (name, "idle")\<close> reads the argument. The status of a zeroed record is the
  first value of the enumeration; \<^verbatim>\<open>init_thread\<close> overwrites it at once.
\<close>

definition zeroed_thread :: thread where
  "zeroed_thread =
     \<lparr>tid = 0, status = THREAD_RUNNING, name = [], priority = 0, priority_orig = 0,
      nice = 0, recent_cpu = 0, ticks_wait = 0, num_lock_donors = 0, parent = 0,
      magic = 0\<rparr>"

definition init_thread :: "sched \<Rightarrow> nat \<Rightarrow> string \<Rightarrow> int \<Rightarrow> error + sched" where
  "init_thread s t nm prio =
     (if \<not> (PRI_MIN \<le> prio \<and> prio \<le> PRI_MAX) then Inl Assertion_failed
      else
        let s1 = upd_thread t (\<lambda>_. zeroed_thread\<lparr>status := THREAD_NASCENT,
                                                  name := take 15 nm\<rparr>) s;
            main = is_main_thread (threads s1 t)
        in case (if \<not> main then thread_current s1 else Inr t) of
             Inl e \<Rightarrow> Inl e
           | Inr creator \<Rightarrow>
               let s2 = upd_thread t (\<lambda>r. r\<lparr>parent := creator\<rparr>) s1;
                   s3 = (if \<not> thread_mlfqs s2
                         then upd_thread t (\<lambda>r. r\<lparr>priority := prio, priority_orig := prio\<rparr>) s2
                         else
                           let s2a = (if \<not> main
                                      then upd_thread t
                                             (\<lambda>r. r\<lparr>nice := nice (threads s2 creator),
                                                    recent_cpu := recent_cpu (threads s2 creator)\<rparr>) s2
                                      else upd_thread t (\<lambda>r. r\<lparr>nice := 0, recent_cpu := 0\<rparr>) s2);
                               s2b = (if nm \<noteq> ''idle''
                                      then upd_thread t (\<lambda>r. r\<lparr>priority := recalculate_priority r\<rparr>) s2a
                                      else upd_thread t (\<lambda>r. r\<lparr>priority := prio\<rparr>) s2a)
                           in upd_thread t (\<lambda>r. r\<lparr>priority_orig := priority r\<rparr>) s2b);
                   s4 = upd_thread t (\<lambda>r. r\<lparr>magic := THREAD_MAGIC, num_lock_donors := 0\<rparr>) s3
               in Inr (s4\<lparr>all_list := list_push_back (all_list s4) t\<rparr>))"

text \<open>\<^verbatim>\<open>allocate_tid\<close>, lines 881-896: the tid and the state with the counter advanced.\<close>

definition INT_MAX :: int where "INT_MAX = 2147483647"

definition allocate_tid :: "sched \<Rightarrow> int \<times> sched" where
  "allocate_tid s =
     (next_tid s, s\<lparr>next_tid := (if next_tid s = INT_MAX then 2 else next_tid s + 1)\<rparr>)"

text \<open>
  \<^verbatim>\<open>thread_init\<close>, lines 105-130. The state before it holds the boot-time mode flag,
  the interrupt level and the page the boot stack is on (\<open>running\<close>).
\<close>

definition thread_init :: "sched \<Rightarrow> error + sched" where
  "thread_init s =
     (if \<not> intr_off s then Inl Assertion_failed
      else
        let s1 = s\<lparr>ready_list := [], all_list := [], waiting_list := []\<rparr>;
            s2 = (if thread_mlfqs s1
                  then s1\<lparr>ready_queues := (\<lambda>i. if 0 \<le> i \<and> i < int NQ then [] else ready_queues s1 i)\<rparr>
                  else s1);
            s3 = s2\<lparr>load_avg := 0, initial_thread := running s2\<rparr>
        in case init_thread s3 (initial_thread s3) ''main'' PRI_DEFAULT of
             Inl e \<Rightarrow> Inl e
           | Inr s4 \<Rightarrow>
               let s5 = upd_thread (initial_thread s4) (\<lambda>t. t\<lparr>status := THREAD_RUNNING\<rparr>) s4;
                   s6 = snd (allocate_tid s5)
               in Inr (upd_thread (initial_thread s6) (\<lambda>t. t\<lparr>tid := fst (allocate_tid s5)\<rparr>) s6))"

text \<open>
  \<^verbatim>\<open>thread_create\<close>, lines 312-352. \<open>page\<close> is what \<^verbatim>\<open>palloc_get_page\<close> returns
  (\<open>None\<close> for \<^verbatim>\<open>NULL\<close>); the result carries the tid, \<open>None\<close> for \<^verbatim>\<open>TID_ERROR\<close>. The
  three stack frames are not part of the state.
\<close>

definition thread_create :: "sched \<Rightarrow> string \<Rightarrow> int \<Rightarrow> nat option \<Rightarrow> error + (int option \<times> sched)" where
  "thread_create s nm prio page =
     (case page of
        None \<Rightarrow> Inr (None, s)
      | Some t \<Rightarrow>
          (case init_thread s t nm prio of
             Inl e \<Rightarrow> Inl e
           | Inr s1 \<Rightarrow>
               let s2 = upd_thread t (\<lambda>r. r\<lparr>tid := fst (allocate_tid s1)\<rparr>) (snd (allocate_tid s1))
               in case thread_unblock s2 t of
                    Inl e \<Rightarrow> Inl e
                  | Inr s3 \<Rightarrow> Inr (Some (fst (allocate_tid s1)), s3)))"

text \<open>
  \<^verbatim>\<open>thread_start\<close>, lines 134-159, up to \<^verbatim>\<open>intr_enable ()\<close>; the wait on the semaphore
  that follows is the semaphore's \<^verbatim>\<open>thread_block\<close>. \<^verbatim>\<open>list_front\<close> of an empty list
  fails its assertion.
\<close>

definition thread_start :: "sched \<Rightarrow> nat option \<Rightarrow> error + sched" where
  "thread_start s page =
     (case thread_create s ''idle'' PRI_MIN page of
        Inl e \<Rightarrow> Inl e
      | Inr (tid_idle, s1) \<Rightarrow>
          (case (if \<not> thread_mlfqs s1 then ready_list s1 else ready_queues s1 PRI_MIN) of
             [] \<Rightarrow> Inl Assertion_failed
           | i # rest \<Rightarrow>
               let s2 = s1\<lparr>idle_thread := Some i\<rparr>;
                   s3 = list_remove_elem i s2;
                   s4 = list_remove_allelem i s3
               in Inr (s4\<lparr>intr_off := False\<rparr>)))"

text \<open>
  The first lines of \<^verbatim>\<open>idle\<close>, lines 640-645: the idle thread stores its own handle.
  The semaphore's \<^verbatim>\<open>sema_up\<close> that follows is a \<^verbatim>\<open>thread_unblock\<close> of the waiter.
\<close>

definition idle_store_handle :: "sched \<Rightarrow> error + sched" where
  "idle_store_handle s =
     (case thread_current s of
        Inl e \<Rightarrow> Inl e
      | Inr cur \<Rightarrow> Inr (s\<lparr>idle_thread := Some cur\<rparr>))"

subsection \<open>Setting priority and nice\<close>

text \<open>
  The loop of \<^verbatim>\<open>thread_assign_priority\<close>, lines 548-551, from band \<open>i\<close> down to the
  band above \<open>new_priority\<close>. The loop goes on after a \<^verbatim>\<open>thread_yield\<close> when the caller
  is still the running thread; when another thread was switched to, the rest of the
  loop waits for the caller's next turn.
\<close>

function scan_bands :: "sched \<Rightarrow> nat \<Rightarrow> int \<Rightarrow> int \<Rightarrow> error + sched" where
  "scan_bands s cur i new_priority =
     (if i > new_priority then
        (if ready_queues s i \<noteq> [] then
           (case thread_yield s of
              Inl e \<Rightarrow> Inl e
            | Inr s' \<Rightarrow>
                if running s' = cur then scan_bands s' cur (i - 1) new_priority else Inr s')
         else scan_bands s cur (i - 1) new_priority)
      else Inr s)"
  by pat_completeness auto
termination
  by (relation "measure (\<lambda>(s, cur, i, new_priority). nat (i - new_priority))") auto

text \<open>\<^verbatim>\<open>thread_assign_priority\<close>, lines 536-560.\<close>

definition thread_assign_priority :: "sched \<Rightarrow> int \<Rightarrow> nat \<Rightarrow> error + sched" where
  "thread_assign_priority s new_priority cur =
     (let old_priority = priority (threads s cur);
          s1 = upd_thread cur (\<lambda>t. t\<lparr>priority := new_priority\<rparr>) s
      in if thread_mlfqs s1 \<and> new_priority < old_priority
         then scan_bands s1 cur old_priority new_priority
         else
           let s2 = upd_thread cur (\<lambda>t. t\<lparr>priority_orig := new_priority\<rparr>) s1
           in case list_max (\<lambda>t. priority (threads s2 t)) (ready_list s2) of
                None \<Rightarrow> Inl Sentinel_read
              | Some t \<Rightarrow>
                  if priority (threads s2 cur) < priority (threads s2 t)
                  then thread_yield s2
                  else Inr s2)"

text \<open>\<^verbatim>\<open>thread_set_priority\<close>, lines 563-577.\<close>

definition thread_set_priority :: "sched \<Rightarrow> int \<Rightarrow> error + sched" where
  "thread_set_priority s new_priority =
     (case thread_current s of
        Inl e \<Rightarrow> Inl e
      | Inr cur \<Rightarrow>
          if thread_mlfqs s then Inr s
          else if num_lock_donors (threads s cur) \<noteq> 0 \<and> new_priority \<le> priority (threads s cur)
          then Inr (upd_thread cur (\<lambda>t. t\<lparr>priority_orig := new_priority\<rparr>) s)
          else thread_assign_priority s new_priority cur)"

text \<open>\<^verbatim>\<open>thread_get_priority\<close>, lines 580-584, and \<^verbatim>\<open>thread_get_nice\<close>, lines 604-608.\<close>

definition thread_get_priority :: "sched \<Rightarrow> error + int" where
  "thread_get_priority s =
     (case thread_current s of Inl e \<Rightarrow> Inl e | Inr cur \<Rightarrow> Inr (priority (threads s cur)))"

definition thread_get_nice :: "sched \<Rightarrow> error + int" where
  "thread_get_nice s =
     (case thread_current s of Inl e \<Rightarrow> Inl e | Inr cur \<Rightarrow> Inr (nice (threads s cur)))"

text \<open>\<^verbatim>\<open>thread_set_nice\<close>, lines 587-601.\<close>

definition thread_set_nice :: "sched \<Rightarrow> int \<Rightarrow> error + sched" where
  "thread_set_nice s n =
     (case thread_current s of
        Inl e \<Rightarrow> Inl e
      | Inr cur \<Rightarrow>
          if \<not> (n \<ge> - 20 \<and> n \<le> 20) then Inl Assertion_failed
          else if thread_mlfqs s then
            let old_level = intr_off s;
                s1 = upd_thread cur (\<lambda>t. t\<lparr>nice := n\<rparr>) s;
                s2 = s1\<lparr>intr_off := True\<rparr>
            in case thread_assign_priority s2 (recalculate_priority (threads s2 cur)) cur of
                 Inl e \<Rightarrow> Inl e
               | Inr s3 \<Rightarrow> Inr (if running s3 = cur then s3\<lparr>intr_off := old_level\<rparr> else s3)
          else Inr s)"

subsection \<open>The tick handler\<close>

text \<open>The count of ready and running threads, lines 207-212.\<close>

fun count_ready :: "sched \<Rightarrow> nat list \<Rightarrow> int \<Rightarrow> int" where
  "count_ready s [] ready_threads = ready_threads"
| "count_ready s (t # ts) ready_threads =
     count_ready s ts
       (if status (threads s t) = THREAD_READY \<or> status (threads s t) = THREAD_RUNNING
        then ready_threads + 1 else ready_threads)"

text \<open>The new load average, lines 214-215; \<^verbatim>\<open>+\<close> is C's addition.\<close>

definition next_load_avg :: "int \<Rightarrow> int \<Rightarrow> int" where
  "next_load_avg la ready_threads =
     s32 (mul_fp (div_fp (convert_fp 59) (convert_fp 60)) la
          + mul_fp (div_fp (convert_fp 1) (convert_fp 60)) (convert_fp ready_threads))"

text \<open>The new \<^verbatim>\<open>recent_cpu\<close> of a thread, line 222.\<close>

definition next_recent_cpu :: "int \<Rightarrow> thread \<Rightarrow> int" where
  "next_recent_cpu la r =
     add_fp_int
       (mul_fp (div_fp (mul_fp_int la 2) (add_fp_int (mul_fp_int la 2) 1)) (recent_cpu r))
       (nice r)"

text \<open>
  The body of the loop of lines 219-235 for one thread of \<open>all_list\<close>, on the state and
  the flag \<^verbatim>\<open>priority_supersded\<close>. The division of line 222 traps on a zero divisor.
\<close>

definition recompute_thread :: "int \<Rightarrow> nat \<Rightarrow> nat \<Rightarrow> sched \<times> bool \<Rightarrow> error + sched \<times> bool" where
  "recompute_thread ticks cur t sf =
     (let s = fst sf; flag = snd sf
      in if status (threads s t) \<noteq> THREAD_NASCENT then
           (if tmod ticks TIMER_FREQ = 0 \<and> add_fp_int (mul_fp_int (load_avg s) 2) 1 = 0
            then Inl Division_by_zero
            else
              let s1 = (if tmod ticks TIMER_FREQ = 0
                        then upd_thread t (\<lambda>r. r\<lparr>recent_cpu := next_recent_cpu (load_avg s) r\<rparr>) s
                        else s);
                  old_priority = priority (threads s1 t);
                  s2 = upd_thread t (\<lambda>r. r\<lparr>priority := recalculate_priority r\<rparr>) s1
              in if status (threads s2 t) = THREAD_READY \<and> old_priority \<noteq> priority (threads s2 t)
                 then
                   let s3 = list_remove_elem t s2;
                       s4 = s3\<lparr>ready_queues := (ready_queues s3)
                               (priority (threads s3 t) :=
                                  list_push_back (ready_queues s3 (priority (threads s3 t))) t)\<rparr>
                   in Inr (s4, if priority (threads s4 t) > priority (threads s4 cur)
                               then True else flag)
                 else Inr (s2, flag))
         else Inr (s, flag))"

fun recompute_pass :: "int \<Rightarrow> nat \<Rightarrow> nat list \<Rightarrow> sched \<times> bool \<Rightarrow> error + sched \<times> bool" where
  "recompute_pass ticks cur [] sf = Inr sf"
| "recompute_pass ticks cur (t # ts) sf =
     (case recompute_thread ticks cur t sf of
        Inl e \<Rightarrow> Inl e
      | Inr sf' \<Rightarrow> recompute_pass ticks cur ts sf')"

text \<open>The MLFQ branch of \<^verbatim>\<open>thread_tick\<close>, lines 198-236.\<close>

definition mlfqs_tick :: "nat \<Rightarrow> int \<Rightarrow> sched \<Rightarrow> error + sched \<times> bool" where
  "mlfqs_tick cur ticks s =
     (let s1 = (if Some cur \<noteq> idle_thread s
                then upd_thread cur (\<lambda>r. r\<lparr>recent_cpu := add_fp_int (recent_cpu r) 1\<rparr>) s
                else s)
      in if tmod ticks 4 = 0 then
           let s2 = (if tmod ticks TIMER_FREQ = 0
                     then s1\<lparr>load_avg := next_load_avg (load_avg s1)
                                            (count_ready s1 (all_list s1) 0)\<rparr>
                     else s1)
           in recompute_pass ticks cur (all_list s2) (s2, False)
         else Inr (s1, False))"

text \<open>The round-robin branch, lines 237-249: priority aging of the ready list.\<close>

fun age_ready :: "nat list \<Rightarrow> sched \<Rightarrow> sched" where
  "age_ready [] s = s"
| "age_ready (t # ts) s =
     age_ready ts
       (if priority (threads s t) < PRI_MAX
        then upd_thread t (\<lambda>r. r\<lparr>priority := priority r + 1\<rparr>) s
        else s)"

definition aging_tick :: "sched \<Rightarrow> sched" where
  "aging_tick s =
     (let s1 = s\<lparr>total_ticks := total_ticks s + 1\<rparr>
      in if tmod (total_ticks s1) (TIME_SLICE * 4) = 0 then age_ready (ready_list s1) s1 else s1)"

text \<open>
  The scan of the waiting list, lines 255-276, from the element \<open>e\<close> at the head of the
  list that is left to visit. The \<^verbatim>\<open>break\<close> after a wake-up ends the scan.
\<close>

fun wake_sleepers :: "nat \<Rightarrow> nat list \<Rightarrow> sched \<times> bool \<Rightarrow> sched \<times> bool" where
  "wake_sleepers cur [] sf = sf"
| "wake_sleepers cur (e # es) sf =
     (let s1 = upd_thread e (\<lambda>r. r\<lparr>ticks_wait := ticks_wait r - 1\<rparr>) (fst sf)
      in if ticks_wait (threads s1 e) = 0 then
           let s2 = list_remove_elem e s1;
               s3 = push_ready e s2;
               s4 = upd_thread e (\<lambda>r. r\<lparr>status := THREAD_READY\<rparr>) s3
           in (s4, if priority (threads s4 e) > priority (threads s4 cur) then True else snd sf)
         else wake_sleepers cur es (s1, snd sf))"

text \<open>
  \<^verbatim>\<open>thread_tick\<close>, lines 178-287 (without \<^verbatim>\<open>USERPROG\<close>), called by the timer interrupt
  with the tick count.
\<close>

definition thread_tick :: "sched \<Rightarrow> int \<Rightarrow> error + sched" where
  "thread_tick s ticks =
     (case thread_current s of
        Inl e \<Rightarrow> Inl e
      | Inr cur \<Rightarrow>
          let s1 = (if Some cur = idle_thread s
                    then s\<lparr>idle_ticks := idle_ticks s + 1\<rparr>
                    else s\<lparr>kernel_ticks := kernel_ticks s + 1\<rparr>)
          in case (if thread_mlfqs s1 then mlfqs_tick cur ticks s1
                   else Inr (aging_tick s1, False)) of
               Inl e \<Rightarrow> Inl e
             | Inr sf \<Rightarrow>
                 let sf' = wake_sleepers cur (waiting_list (fst sf)) sf;
                     s4 = (fst sf')\<lparr>thread_ticks := thread_ticks (fst sf') + 1\<rparr>
                 in Inr (if thread_ticks s4 \<ge> TIME_SLICE \<or> snd sf'
                         then s4\<lparr>yield_on_return := True\<rparr> else s4))"

subsection \<open>States to run the code on\<close>

text \<open>
  The machine before \<^verbatim>\<open>thread_init\<close>: interrupts off, the boot stack on page 1, memory
  zeroed, with the scheduler mode of the command line.
\<close>

definition boot :: "bool \<Rightarrow> sched" where
  "boot mlfqs =
     \<lparr>threads = (\<lambda>_. zeroed_thread), running = 1, ready_list = [],
      ready_queues = (\<lambda>_. []), waiting_list = [], all_list = [], idle_thread = None,
      initial_thread = 0, load_avg = 0, thread_mlfqs = mlfqs, idle_ticks = 0,
      kernel_ticks = 0, total_ticks = 0, thread_ticks = 0, next_tid = 1, intr_off = True,
      in_intr = False, yield_on_return = False, freed = []\<rparr>"

text \<open>Running one call after another, stopping at the first error.\<close>

definition and_then :: "error + 'a \<Rightarrow> ('a \<Rightarrow> error + 'b) \<Rightarrow> error + 'b" where
  "and_then m f = (case m of Inl e \<Rightarrow> Inl e | Inr x \<Rightarrow> f x)"

text \<open>
  \<open>booted\<close>: \<^verbatim>\<open>thread_init\<close>, then \<^verbatim>\<open>thread_start\<close> with page 2 for the idle thread, up to
  its \<^verbatim>\<open>intr_enable\<close>. \<open>idle_first_run\<close>: the initial thread then waits on the semaphore
  (interrupts off, \<^verbatim>\<open>thread_block\<close>), the idle thread is switched to and stores its
  handle.
\<close>

definition booted :: "bool \<Rightarrow> error + sched" where
  "booted mlfqs = and_then (thread_init (boot mlfqs)) (\<lambda>s. thread_start s (Some 2))"

definition idle_first_run :: "bool \<Rightarrow> error + sched" where
  "idle_first_run mlfqs =
     and_then (booted mlfqs)
       (\<lambda>s. and_then (thread_block (s\<lparr>intr_off := True\<rparr>)) idle_store_handle)"

text \<open>
  \<open>started\<close>: the idle thread then signals the semaphore, a \<^verbatim>\<open>thread_unblock\<close> of the
  initial thread (page 1), which runs again: \<^verbatim>\<open>thread_start\<close> has completed.
\<close>

definition started :: "bool \<Rightarrow> error + sched" where
  "started mlfqs = and_then (idle_first_run mlfqs) (\<lambda>s. thread_unblock s 1)"

text \<open>
  \<open>main_after_sleep\<close>: in round-robin mode, after the start, the initial thread calls
  \<^verbatim>\<open>thread_wait (1)\<close>; the idle thread runs and blocks (it is chosen again, nothing
  being ready); the next timer tick wakes the initial thread and asks for a yield,
  and on return from the interrupt the idle thread yields to it.
\<close>

definition main_after_sleep :: "error + sched" where
  "main_after_sleep =
     and_then (started False) (\<lambda>s.
     and_then (thread_wait s 1) (\<lambda>s.
     and_then (thread_block s) (\<lambda>s.
     and_then (thread_tick s 1) (\<lambda>s. thread_yield s))))"

text \<open>
  \<open>two_sleepers\<close>: after the start, the initial thread creates the threads \<open>a\<close> (page 3)
  and \<open>b\<close> (page 4) and yields; \<open>a\<close> runs and calls \<^verbatim>\<open>thread_wait (1)\<close>, then \<open>b\<close> does
  the same, and the initial thread runs again with both on the waiting list.
\<close>

definition two_sleepers :: "bool \<Rightarrow> error + sched" where
  "two_sleepers mlfqs =
     and_then (started mlfqs) (\<lambda>s.
     and_then (thread_create s ''a'' PRI_DEFAULT (Some 3)) (\<lambda>r.
     and_then (thread_create (snd r) ''b'' PRI_DEFAULT (Some 4)) (\<lambda>r.
     and_then (thread_yield (snd r)) (\<lambda>s.
     and_then (thread_wait s 1) (\<lambda>s. thread_wait s 1)))))"

text \<open>
  \<open>with_worker\<close>: after the start in round-robin mode, the initial thread has created
  the thread \<open>a\<close> (page 3), which is ready.
\<close>

definition with_worker :: "error + sched" where
  "with_worker =
     and_then (started False) (\<lambda>s.
     and_then (thread_create s ''a'' PRI_DEFAULT (Some 3)) (\<lambda>r. Inr (snd r)))"

text \<open>
  \<open>with_worker_mlfqs\<close>: after the start in MLFQ mode, the initial thread has created the
  thread \<open>a\<close> (page 3), which is ready in band 63, the band of the initial thread.
\<close>

definition with_worker_mlfqs :: "error + sched" where
  "with_worker_mlfqs =
     and_then (started True) (\<lambda>s.
     and_then (thread_create s ''a'' PRI_DEFAULT (Some 3)) (\<lambda>r. Inr (snd r)))"

text \<open>
  \<open>niced\<close>: after the start in MLFQ mode the initial thread sets its nice to 5 and one
  timer tick passes.
\<close>

definition niced :: "error + sched" where
  "niced = and_then (started True) (\<lambda>s. and_then (thread_set_nice s 5) (\<lambda>s. thread_tick s 1))"

text \<open>
  \<open>higher_band_ready\<close>: in MLFQ mode the initial thread creates \<open>a\<close> (page 3, priority
  63) and sets its own nice to 5 (priority 53), which yields to \<open>a\<close>; \<open>a\<close> blocks, the
  initial thread runs again, and an interrupt handler unblocks \<open>a\<close>, which does not
  preempt. The initial thread then runs at priority 53 with \<open>a\<close> ready in band 63.
\<close>

definition higher_band_ready :: "error + sched" where
  "higher_band_ready =
     and_then (started True) (\<lambda>s.
     and_then (thread_create s ''a'' PRI_DEFAULT (Some 3)) (\<lambda>r.
     and_then (thread_set_nice (snd r) 5) (\<lambda>s.
     and_then (thread_block s) (\<lambda>s.
     and_then (thread_unblock (s\<lparr>in_intr := True\<rparr>) 3) (\<lambda>s.
     Inr (s\<lparr>in_intr := False\<rparr>))))))"

text \<open>\<open>four_ticks\<close>: after the start in MLFQ mode, the timer ticks 1 to 4 arrive.\<close>

definition four_ticks :: "error + sched" where
  "four_ticks =
     and_then (started True) (\<lambda>s.
     and_then (thread_tick s 1) (\<lambda>s.
     and_then (thread_tick s 2) (\<lambda>s.
     and_then (thread_tick s 3) (\<lambda>s. thread_tick s 4))))"

text \<open>
  \<open>with_nascent\<close>: in round-robin mode, with the thread \<open>a\<close> ready, a thread record is
  initialised on page 4 and not yet unblocked.
\<close>

definition with_nascent :: "error + sched" where
  "with_nascent = and_then with_worker (\<lambda>s. init_thread s 4 ''b'' PRI_DEFAULT)"

text \<open>
  \<open>preempted_set_priority\<close>: in round-robin mode, after the start, the initial thread
  calls \<^verbatim>\<open>thread_set_priority (40)\<close>, which runs with interrupts on. It stores the new
  priority (line 544); before it stores the original priority (line 553) the timer
  ticks 1 to 4 arrive. Tick 4 ends the time slice, and on return from the interrupt
  the thread yields; it is chosen again, and \<^verbatim>\<open>thread_schedule_tail\<close> (line 843) puts
  its original priority back. The call then goes on and stores the original priority.
\<close>

definition preempted_set_priority :: "error + sched" where
  "preempted_set_priority =
     and_then (started False) (\<lambda>s.
     and_then (thread_tick (upd_thread 1 (\<lambda>r. r\<lparr>priority := 40\<rparr>) s) 1) (\<lambda>s.
     and_then (thread_tick s 2) (\<lambda>s.
     and_then (thread_tick s 3) (\<lambda>s.
     and_then (thread_tick s 4) (\<lambda>s.
     and_then (thread_yield s) (\<lambda>s.
     Inr (upd_thread 1 (\<lambda>r. r\<lparr>priority_orig := 40\<rparr>) s)))))))"

subsection \<open>The priority formula in the spec's words\<close>

text \<open>
  Section 4.F: \<open>priority := round_to_nearest (PRI_MAX - recent_cpu / 4 - 2 * nice)\<close>,
  clamped to \<open>[PRI_MIN, PRI_MAX]\<close>, on fixed-point values (integers scaled by
  \<open>2^14\<close>, division truncating towards zero) with no wrap-around; the conversion adds
  or subtracts half the scale before truncating.
\<close>

definition round_to_nearest :: "int \<Rightarrow> int" where
  "round_to_nearest x =
     (if x \<ge> 0 then tdiv (x + FP_F div 2) FP_F else tdiv (x - FP_F div 2) FP_F)"

definition priority_formula :: "int \<Rightarrow> int \<Rightarrow> int" where
  "priority_formula rc n =
     max PRI_MIN (min PRI_MAX
       (round_to_nearest (PRI_MAX * FP_F - tdiv rc 4 - 2 * n * FP_F)))"

subsection \<open>Notions used in the statements\<close>

text \<open>
  A thread is in the ready structure: on \<open>ready_list\<close> or in one of the 64 bands of
  \<open>ready_queues\<close>.
\<close>

definition in_ready :: "sched \<Rightarrow> nat \<Rightarrow> bool" where
  "in_ready s t =
     (t \<in> set (ready_list s) \<or> (\<exists>i\<in>{PRI_MIN..PRI_MAX}. t \<in> set (ready_queues s i)))"

text \<open>
  What \<^verbatim>\<open>thread_schedule_tail\<close> makes of the record of the thread it runs in: the status
  \<^verbatim>\<open>THREAD_RUNNING\<close> and, in round-robin mode without donors, the original priority.
\<close>

definition resumed :: "sched \<Rightarrow> thread \<Rightarrow> thread" where
  "resumed s r =
     (if num_lock_donors r = 0 \<and> \<not> thread_mlfqs s
      then r\<lparr>status := THREAD_RUNNING, priority := priority_orig r\<rparr>
      else r\<lparr>status := THREAD_RUNNING\<rparr>)"

text \<open>The state a run ends in (the boot state when the run failed).\<close>

definition state_of :: "error + sched \<Rightarrow> sched" where
  "state_of r = (case r of Inl e \<Rightarrow> boot False | Inr s \<Rightarrow> s)"

subsection \<open>The order of priority and original priority\<close>

text \<open>
  The invariant of round-robin mode: the mode flag is off and, in every thread record,
  the priority is at least the original priority.
\<close>

definition rr_inv :: "sched \<Rightarrow> bool" where
  "rr_inv s = (\<not> thread_mlfqs s \<and> (\<forall>t. priority_orig (threads s t) \<le> priority (threads s t)))"

text \<open>A call has returned, in a state where the invariant holds.\<close>

definition kept :: "error + sched \<Rightarrow> bool" where
  "kept r = (case r of Inl e \<Rightarrow> False | Inr s \<Rightarrow> rr_inv s)"

subsection \<open>The load average in the spec's words\<close>

text \<open>
  Section 4.E: \<open>ready_threads\<close> is the number of threads whose status is READY or
  RUNNING, excluding idle; the threads counted are those of the all-threads list.
\<close>

definition ready_threads :: "sched \<Rightarrow> int" where
  "ready_threads s =
     int (length [t \<leftarrow> all_list s. Some t \<noteq> idle_thread s \<and>
            (status (threads s t) = THREAD_READY \<or> status (threads s t) = THREAD_RUNNING)])"

text \<open>
  The state after the first step of the MLFQ branch of the tick handler (lines
  200-201): the running thread, unless it is the idle thread, is charged one tick of
  \<open>recent_cpu\<close>.
\<close>

definition charged :: "sched \<Rightarrow> nat \<Rightarrow> sched" where
  "charged s cur =
     (if Some cur \<noteq> idle_thread s
      then upd_thread cur (\<lambda>r. r\<lparr>recent_cpu := add_fp_int (recent_cpu r) 1\<rparr>) s
      else s)"

text \<open>
  Section 4.E: \<open>recent_cpu := (2 * load_avg) / (2 * load_avg + 1) * recent_cpu + nice\<close>,
  with the operations of section 4.A on the scaled values and no wrap-around: fixed
  times integer, fixed plus integer (the integer scaled by \<open>2^14\<close>), fixed divided by
  fixed (the dividend scaled, the division truncating), fixed times fixed (the product
  divided by \<open>2^14\<close>, truncating). The arguments are the load average, the old
  \<open>recent_cpu\<close> and the nice value.
\<close>

definition recent_cpu_spec :: "int \<Rightarrow> int \<Rightarrow> int \<Rightarrow> int" where
  "recent_cpu_spec la rc n = tdiv (tdiv (2 * la * FP_F) (2 * la + FP_F) * rc) FP_F + n * FP_F"

section \<open>Properties\<close>

subsection \<open>Arithmetic\<close>

lemma s32_id: "- 2147483648 \<le> x \<Longrightarrow> x < 2147483648 \<Longrightarrow> s32 x = x"
  by (simp add: s32_def)

lemma tdiv_pos: "0 \<le> a \<Longrightarrow> 0 < b \<Longrightarrow> tdiv a b = a div b"
  by (cases "a = 0") (simp_all add: tdiv_def)

lemma tdiv_neg: "a < 0 \<Longrightarrow> 0 < b \<Longrightarrow> tdiv a b = - ((- a) div b)"
  by (simp add: tdiv_def)

lemma tdiv_4_bounds:
  assumes "- 2147483648 \<le> x" "x < 2147483648"
  shows "- 536870912 \<le> tdiv x 4 \<and> tdiv x 4 \<le> 536870911"
proof (cases "0 \<le> x")
  case True
  then have "tdiv x 4 = x div 4" by (simp add: tdiv_pos)
  then show ?thesis using assms True by arith
next
  case False
  then have "tdiv x 4 = - ((- x) div 4)" by (simp add: tdiv_neg)
  then show ?thesis using assms False by arith
qed

lemma half_away:
  fixes y d m :: int
  assumes "y = 16384 * d + m" "0 \<le> m" "m < 16384"
  shows "2 * \<bar>d * 16384 - (y - 8192)\<bar> \<le> 16384"
  using assms by (simp add: abs_if)

lemma round_to_nearest_is_nearest: "2 * \<bar>round_to_nearest x * FP_F - x\<bar> \<le> FP_F"
proof (cases "0 \<le> x")
  case True
  let ?y = "x + 8192"
  have r: "round_to_nearest x = ?y div 16384"
    using True by (simp add: round_to_nearest_def FP_F_def tdiv_pos)
  have "2 * \<bar>(?y div 16384) * 16384 - (?y - 8192)\<bar> \<le> 16384"
    by (rule half_away [where m = "?y mod 16384"]) simp_all
  then show ?thesis unfolding r FP_F_def by simp
next
  case False
  let ?y = "8192 - x"
  have r: "round_to_nearest x = - (?y div 16384)"
    using False by (simp add: round_to_nearest_def FP_F_def tdiv_neg)
  have "2 * \<bar>(?y div 16384) * 16384 - (?y - 8192)\<bar> \<le> 16384"
    by (rule half_away [where m = "?y mod 16384"]) simp_all
  then show ?thesis unfolding r FP_F_def by (simp add: abs_if split: if_splits)
qed

lemma recalculate_priority_range:
  "PRI_MIN \<le> recalculate_priority t \<and> recalculate_priority t \<le> PRI_MAX"
  by (simp add: recalculate_priority_def Let_def PRI_MIN_def PRI_MAX_def)

lemma recalculate_priority_exact:
  assumes "- 20 \<le> nice t" "nice t \<le> 20"
    and "- 2147483648 \<le> recent_cpu t" "recent_cpu t < 2147483648"
  shows "recalculate_priority t = priority_formula (recent_cpu t) (nice t)"
proof -
  let ?q = "tdiv (recent_cpu t) 4"
  from tdiv_4_bounds [OF assms(3,4)]
  have q: "- 536870912 \<le> ?q" "?q \<le> 536870911" by simp_all
  have a: "convert_fp PRI_MAX = 1032192"
    by (simp add: convert_fp_def PRI_MAX_def FP_F_def s32_def)
  have b: "div_fp_int (recent_cpu t) 4 = ?q"
    using q by (simp add: div_fp_int_def s32_id)
  have c: "convert_fp (nice t) = nice t * 16384"
    using assms(1,2) by (simp add: convert_fp_def FP_F_def s32_id)
  have d: "mul_fp_int (convert_fp (nice t)) 2 = 2 * nice t * 16384"
    using assms(1,2) by (simp add: c mul_fp_int_def s32_id)
  have e: "s32 (convert_fp PRI_MAX - div_fp_int (recent_cpu t) 4) = 1032192 - ?q"
    using q by (simp add: a b s32_id)
  let ?x = "1032192 - ?q - 2 * nice t * 16384"
  have f: "s32 (1032192 - ?q - 2 * nice t * 16384) = ?x"
    using q assms(1,2) by (simp add: s32_id)
  have x: "- 536870912 \<le> ?x" "?x \<le> 1000000000"
    using q assms(1,2) by simp_all
  have g: "convert_int_near ?x = round_to_nearest ?x"
    using x by (simp add: convert_int_near_def round_to_nearest_def FP_F_def s32_id)
  show ?thesis
    unfolding recalculate_priority_def priority_formula_def Let_def e d f g
    by (simp add: PRI_MAX_def PRI_MIN_def FP_F_def max_def min_def)
qed

subsection \<open>The priority engine\<close>

text \<open>
  C7. For every thread whose \<open>nice\<close> is in \<open>[-20, 20]\<close> and whose \<open>recent_cpu\<close> is a
  32-bit value, \<open>recalculate_priority\<close> returns the formula of the spec evaluated
  without any overflow: \<open>PRI_MAX - recent_cpu / 4 - 2 * nice\<close> in 17.14 fixed point
  (the division truncating), converted to an integer by rounding to nearest, and
  clamped to \<open>[PRI_MIN, PRI_MAX] = [0, 63]\<close>. The conversion is a rounding to nearest:
  the integer it gives is at most half a unit away from the fixed-point value.
\<close>

theorem recalculate_priority_spec:
  assumes "- 20 \<le> nice t" and "nice t \<le> 20"
    and "- 2147483648 \<le> recent_cpu t" and "recent_cpu t < 2147483648"
  shows "recalculate_priority t = priority_formula (recent_cpu t) (nice t)
    \<and> 0 \<le> recalculate_priority t \<and> recalculate_priority t \<le> 63
    \<and> 2 * \<bar>round_to_nearest (PRI_MAX * FP_F - tdiv (recent_cpu t) 4 - 2 * nice t * FP_F) * FP_F
            - (PRI_MAX * FP_F - tdiv (recent_cpu t) 4 - 2 * nice t * FP_F)\<bar> \<le> FP_F"
proof -
  have "recalculate_priority t = priority_formula (recent_cpu t) (nice t)"
    using assms by (rule recalculate_priority_exact)
  moreover have "0 \<le> recalculate_priority t \<and> recalculate_priority t \<le> 63"
    using recalculate_priority_range [of t] by (simp add: PRI_MIN_def PRI_MAX_def)
  ultimately show ?thesis
    using round_to_nearest_is_nearest by blast
qed

theorem recalculate_priority_spec_witness:
  "recalculate_priority (zeroed_thread\<lparr>nice := 5, recent_cpu := 100000\<rparr>) = 51
   \<and> priority_formula 100000 5 = 51"
proof -
  let ?t = "zeroed_thread\<lparr>nice := 5, recent_cpu := 100000\<rparr>"
  have h: "- 20 \<le> nice ?t" "nice ?t \<le> 20"
    "- 2147483648 \<le> recent_cpu ?t" "recent_cpu ?t < 2147483648"
    by (simp_all add: zeroed_thread_def)
  have "priority_formula 100000 5 = 51"
    by (simp add: priority_formula_def round_to_nearest_def tdiv_def PRI_MAX_def
        PRI_MIN_def FP_F_def)
  then show ?thesis
    using recalculate_priority_spec [OF h] by (simp add: zeroed_thread_def)
qed

subsection \<open>Running the code\<close>

lemmas exec_defs =
  and_then_def booted_def boot_def thread_init_def thread_start_def
  thread_create_def init_thread_def thread_unblock_def thread_yield_def thread_wait_def
  thread_block_def thread_exit_def schedule_def thread_schedule_tail_def
  next_thread_to_run_def thread_current_def is_thread_def is_main_thread_def
  upd_thread_def push_ready_def list_push_back_def list_remove_elem_def
  list_remove_allelem_def allocate_tid_def zeroed_thread_def idle_store_handle_def
  thread_assign_priority_def thread_set_priority_def thread_set_nice_def
  thread_tick_def aging_tick_def mlfqs_tick_def recompute_thread_def
  PRI_MIN_def PRI_MAX_def PRI_DEFAULT_def NQ_def TIMER_FREQ_def TIME_SLICE_def
  THREAD_MAGIC_def INT_MAX_def Let_def

subsection \<open>The sleep queue\<close>

text \<open>
  C1. With two sleepers on the waiting list that both expire on the same tick
  (\<open>ticks_wait = 1\<close>), one call of \<open>thread_tick\<close> wakes the first only: the scan stops at
  its \<^verbatim>\<open>break\<close>, the second sleeper stays blocked on the waiting list and its counter
  is not even decremented. In both scheduler modes. (The thread on page 2 is the idle
  thread.)
\<close>

theorem thread_tick_wakes_first_only:
  "map_sum id (\<lambda>s. (waiting_list s, ticks_wait (threads s 3), ticks_wait (threads s 4)))
     (two_sleepers False) = Inr ([3, 4], 1, 1)
   \<and> map_sum id (\<lambda>s. (ready_list s, waiting_list s,
          status (threads s 3), ticks_wait (threads s 3),
          status (threads s 4), ticks_wait (threads s 4)))
       (and_then (two_sleepers False) (\<lambda>s. thread_tick s 1))
     = Inr ([2, 3], [4], THREAD_READY, 0, THREAD_BLOCKED, 1)
   \<and> map_sum id (\<lambda>s. (waiting_list s, ticks_wait (threads s 3), ticks_wait (threads s 4)))
       (two_sleepers True) = Inr ([3, 4], 1, 1)
   \<and> map_sum id (\<lambda>s. (ready_queues s 63, waiting_list s,
          status (threads s 3), ticks_wait (threads s 3),
          status (threads s 4), ticks_wait (threads s 4)))
       (and_then (two_sleepers True) (\<lambda>s. thread_tick s 1))
     = Inr ([3], [4], THREAD_READY, 0, THREAD_BLOCKED, 1)"
  by code_simp

subsection \<open>The idle thread\<close>

text \<open>
  C4. When the idle thread runs for the first time it signals the semaphore the initial
  thread waits on: \<open>thread_unblock\<close> of the initial thread, from the idle thread, outside
  an interrupt. The initial thread has the higher priority, so \<open>thread_unblock\<close> puts
  the running thread, the idle thread, into the ready structure and schedules: the
  idle thread is then in \<open>ready_list\<close> (in band 0 of \<open>ready_queues\<close> in MLFQ mode) while
  the initial thread runs.
\<close>

theorem idle_thread_enters_ready_structure:
  "map_sum id (\<lambda>s. (idle_thread s, running s, in_intr s, ready_list s, all_list s))
     (idle_first_run False) = Inr (Some 2, 2, False, [], [1])
   \<and> map_sum id (\<lambda>s. (idle_thread s, running s, ready_list s, status (threads s 2)))
       (and_then (idle_first_run False) (\<lambda>s. thread_unblock s 1))
     = Inr (Some 2, 1, [2], THREAD_READY)
   \<and> map_sum id (\<lambda>s. (idle_thread s, running s, in_intr s, ready_queues s 0, all_list s))
       (idle_first_run True) = Inr (Some 2, 2, False, [], [1])
   \<and> map_sum id (\<lambda>s. (idle_thread s, running s, ready_queues s 0, status (threads s 2)))
       (and_then (idle_first_run True) (\<lambda>s. thread_unblock s 1))
     = Inr (Some 2, 1, [2], THREAD_READY)"
  by code_simp

subsection \<open>Inheritance of nice and recent_cpu\<close>

text \<open>
  C9. In MLFQ mode, with the initial thread (page 1) running at nice 5 and a non-zero
  \<open>recent_cpu\<close>, \<open>init_thread\<close> of a new thread on page 3 gives it the creator's values
  when it is named \<open>a\<close>, and 0 for both (and itself as parent) when it is named \<open>main\<close>:
  the test is the name of the thread, not whether it is the initial thread.
\<close>

theorem init_thread_named_main_not_inherited:
  "map_sum id (\<lambda>s. (initial_thread s, running s, nice (threads s 1), recent_cpu (threads s 1)))
     niced = Inr (1, 1, 5, 16384)
   \<and> map_sum id (\<lambda>s. (nice (threads s 3), recent_cpu (threads s 3), parent (threads s 3)))
       (and_then niced (\<lambda>s. init_thread s 3 ''a'' PRI_DEFAULT)) = Inr (5, 16384, 1)
   \<and> map_sum id (\<lambda>s. (nice (threads s 3), recent_cpu (threads s 3), parent (threads s 3)))
       (and_then niced (\<lambda>s. init_thread s 3 ''main'' PRI_DEFAULT)) = Inr (0, 0, 3)"
  by code_simp

subsection \<open>The lookup of the maximum of the ready list\<close>

text \<open>
  C10. In MLFQ mode \<open>ready_list\<close> is empty. After the start, \<open>thread_set_nice (0)\<close> by
  the initial thread recomputes the same priority, which is not lower than the old
  one, so \<open>thread_assign_priority\<close> takes the branch that looks up the maximum of the
  empty \<open>ready_list\<close> and reads the priority of what it returns, the sentinel of the
  list. In round-robin mode, when the initial thread has slept and runs again with
  nothing else ready, \<open>thread_set_priority\<close> does the same.
\<close>

theorem thread_assign_priority_reads_sentinel:
  "map_sum id (\<lambda>s. (running s, thread_mlfqs s, ready_list s)) (started True)
     = Inr (1, True, [])
   \<and> map_sum id running (and_then (started True) (\<lambda>s. thread_set_nice s 0))
     = Inl Sentinel_read
   \<and> map_sum id (\<lambda>s. (running s, thread_mlfqs s, ready_list s)) main_after_sleep
     = Inr (1, False, [])
   \<and> map_sum id running (and_then main_after_sleep (\<lambda>s. thread_set_priority s PRI_DEFAULT))
     = Inl Sentinel_read"
  by code_simp

subsection \<open>The scheduler core\<close>

lemma list_max_mem:
  assumes "list_max key xs = Some m"
  shows "m \<in> set xs"
proof (cases xs)
  case Nil
  with assms show ?thesis by simp
next
  case (Cons x ys)
  have "foldl (\<lambda>m e. if key m < key e then e else m) a ys \<in> set (a # ys)" for a
    by (induction ys arbitrary: a) auto
  then show ?thesis using Cons assms by auto
qed

lemma front_band_mem: "front_band q n = Some m \<Longrightarrow> \<exists>i\<in>{0..int n}. m \<in> set (q i)"
proof (induction n)
  case 0
  then have "m \<in> set (q 0)" by (auto split: list.splits)
  then show ?case by simp
next
  case (Suc n)
  show ?case
  proof (cases "q (int (Suc n))")
    case Nil
    with Suc obtain i where "i \<in> {0..int n}" "m \<in> set (q i)" by auto
    then show ?thesis by (intro bexI [of _ i]) auto
  next
    case (Cons x xs)
    with Suc.prems have "m \<in> set (q (int (Suc n)))" by simp
    then show ?thesis by (intro bexI [of _ "int (Suc n)"]) auto
  qed
qed

lemma next_thread_to_run_cases:
  assumes "fst (next_thread_to_run s) = Some nx"
  shows "(in_ready s nx \<and> snd (next_thread_to_run s) = list_remove_elem nx s)
       \<or> (idle_thread s = Some nx \<and> snd (next_thread_to_run s) = s)"
  using assms
  by (auto simp: next_thread_to_run_def in_ready_def PRI_MIN_def PRI_MAX_def
      split: if_splits option.splits dest: list_max_mem dest!: front_band_mem)

lemma thread_schedule_tail_Inr:
  assumes "thread_schedule_tail s prev = Inr s'"
  shows "running s' = running s
    \<and> threads s' = (threads s)(running s := resumed s (threads s (running s)))
    \<and> ready_list s' = ready_list s \<and> ready_queues s' = ready_queues s
    \<and> waiting_list s' = waiting_list s \<and> all_list s' = all_list s
    \<and> idle_thread s' = idle_thread s \<and> initial_thread s' = initial_thread s
    \<and> thread_mlfqs s' = thread_mlfqs s \<and> load_avg s' = load_avg s
    \<and> in_intr s' = in_intr s \<and> intr_off s' = intr_off s"
  using assms
  by (auto simp: thread_schedule_tail_def Let_def upd_thread_def resumed_def
      split: if_splits option.splits)

lemma schedule_Inr:
  assumes "schedule s = Inr s'"
  shows "fst (next_thread_to_run s) = Some (running s')
    \<and> threads s' = (threads s)(running s' := resumed s (threads s (running s')))
    \<and> ready_list s' = ready_list (snd (next_thread_to_run s))
    \<and> ready_queues s' = ready_queues (snd (next_thread_to_run s))
    \<and> waiting_list s' = waiting_list (snd (next_thread_to_run s))
    \<and> all_list s' = all_list s
    \<and> idle_thread s' = idle_thread s \<and> initial_thread s' = initial_thread s
    \<and> thread_mlfqs s' = thread_mlfqs s \<and> load_avg s' = load_avg s
    \<and> in_intr s' = in_intr s \<and> intr_off s' = intr_off s"
proof -
  have frame: "threads (snd (next_thread_to_run s)) = threads s
      \<and> all_list (snd (next_thread_to_run s)) = all_list s
      \<and> idle_thread (snd (next_thread_to_run s)) = idle_thread s
      \<and> initial_thread (snd (next_thread_to_run s)) = initial_thread s
      \<and> thread_mlfqs (snd (next_thread_to_run s)) = thread_mlfqs s
      \<and> load_avg (snd (next_thread_to_run s)) = load_avg s
      \<and> in_intr (snd (next_thread_to_run s)) = in_intr s
      \<and> intr_off (snd (next_thread_to_run s)) = intr_off s
      \<and> running (snd (next_thread_to_run s)) = running s"
    by (simp add: next_thread_to_run_def list_remove_elem_def split: option.splits)
  from assms obtain nx where nx: "fst (next_thread_to_run s) = Some nx"
    by (auto simp: schedule_def Let_def split: if_splits option.splits)
  let ?s1 = "snd (next_thread_to_run s)"
  from assms nx have tail:
    "thread_schedule_tail (if running s \<noteq> nx then ?s1\<lparr>running := nx\<rparr> else ?s1)
       (if running s \<noteq> nx then Some (running s) else None) = Inr s'"
    by (auto simp: schedule_def Let_def split: if_splits)
  show ?thesis
  proof (cases "running s = nx")
    case True
    with tail have "thread_schedule_tail ?s1 None = Inr s'" by simp
    from thread_schedule_tail_Inr [OF this] frame True nx show ?thesis
      by (simp add: resumed_def)
  next
    case False
    with tail have "thread_schedule_tail (?s1\<lparr>running := nx\<rparr>) (Some (running s)) = Inr s'"
      by simp
    from thread_schedule_tail_Inr [OF this] frame nx show ?thesis
      by (simp add: resumed_def)
  qed
qed

subsection \<open>Waiting\<close>

text \<open>
  C2 does not hold as stated: \<open>thread_wait\<close> has no test of its argument. After the
  start, \<open>thread_wait (0)\<close> by the initial thread blocks it and puts it on the waiting
  list with \<open>ticks_wait = 0\<close>; the idle thread runs.
\<close>

theorem thread_wait_zero_sleeps:
  "map_sum id (\<lambda>s. (running s, waiting_list s, status (threads s 1), ticks_wait (threads s 1)))
     (started False) = Inr (1, [], THREAD_RUNNING, 0)
   \<and> map_sum id (\<lambda>s. (running s, waiting_list s, status (threads s 1), ticks_wait (threads s 1)))
       (and_then (started False) (\<lambda>s. thread_wait s 0))
     = Inr (2, [1], THREAD_BLOCKED, 0)"
  by code_simp

text \<open>
  C2, amended. A call \<open>thread_wait (n)\<close> with \<open>n > 0\<close> that returns into the scheduler,
  by a running thread that is not the idle thread and is not in the ready structure,
  leaves the caller blocked on the waiting list with \<open>ticks_wait = n > 0\<close> and another
  thread running: a thread that such a call places on the queue has \<open>ticks_wait > 0\<close>
  on entry.
\<close>

theorem thread_wait_enqueues:
  assumes "thread_wait s n = Inr s'"
    and "0 < n"
    and "\<not> in_ready s (running s)"
    and "idle_thread s \<noteq> Some (running s)"
  shows "running s \<in> set (waiting_list s')
    \<and> status (threads s' (running s)) = THREAD_BLOCKED
    \<and> ticks_wait (threads s' (running s)) = n
    \<and> 0 < ticks_wait (threads s' (running s))
    \<and> running s' \<noteq> running s"
proof -
  let ?cur = "running s"
  let ?s3 = "s\<lparr>threads := (threads s)(?cur := (threads s ?cur)\<lparr>status := THREAD_BLOCKED, ticks_wait := n\<rparr>),
               waiting_list := waiting_list s @ [?cur]\<rparr>"
  from assms(1) have sch: "schedule ?s3 = Inr s'"
    by (auto simp: thread_wait_def thread_current_def Let_def upd_thread_def
        list_push_back_def split: if_splits)
  note S = schedule_Inr [OF sch]
  from S have nx: "fst (next_thread_to_run ?s3) = Some (running s')" by simp
  have ready: "in_ready ?s3 t = in_ready s t" for t by (simp add: in_ready_def)
  from next_thread_to_run_cases [OF nx]
  have ne: "running s' \<noteq> ?cur" and wl: "?cur \<in> set (waiting_list (snd (next_thread_to_run ?s3)))"
    using assms(3,4) by (auto simp: ready list_remove_elem_def)
  from S ne have "threads s' ?cur = threads ?s3 ?cur" by simp
  then have "status (threads s' ?cur) = THREAD_BLOCKED" "ticks_wait (threads s' ?cur) = n"
    by simp_all
  moreover from S wl have "?cur \<in> set (waiting_list s')" by simp
  ultimately show ?thesis using ne assms(2) by simp
qed

theorem thread_wait_enqueues_witness:
  "\<not> in_ready (state_of (started False)) 1
   \<and> idle_thread (state_of (started False)) = Some 2
   \<and> map_sum id (\<lambda>s. (waiting_list s, status (threads s 1), ticks_wait (threads s 1), running s))
       (thread_wait (state_of (started False)) 5)
     = Inr ([1], THREAD_BLOCKED, 5, 2)"
proof -
  let ?s = "state_of (started False)"
  let ?s' = "state_of (thread_wait ?s 5)"
  note defs = state_of_def started_def idle_first_run_def exec_defs
  have r: "running ?s = 1" by (simp add: defs)
  have a: "thread_wait ?s 5 = Inr ?s'" by (simp add: defs)
  have b: "\<not> in_ready ?s (running ?s)" by (simp add: in_ready_def defs)
  have c: "idle_thread ?s \<noteq> Some (running ?s)" by (simp add: defs)
  have d: "idle_thread ?s = Some 2" by (simp add: defs)
  have e: "waiting_list ?s' = [1]" "running ?s' = 2" by (simp_all add: defs)
  have p: "(0::int) < 5" by simp
  from thread_wait_enqueues [OF a p b c]
  have "status (threads ?s' 1) = THREAD_BLOCKED" "ticks_wait (threads ?s' 1) = 5"
    unfolding r by simp_all
  with e have "map_sum id (\<lambda>s. (waiting_list s, status (threads s 1), ticks_wait (threads s 1), running s))
       (Inr ?s') = Inr ([1], THREAD_BLOCKED, 5, 2)" by simp
  with arg_cong [OF a, of "map_sum id (\<lambda>s. (waiting_list s, status (threads s 1), ticks_wait (threads s 1), running s))"]
  have "map_sum id (\<lambda>s. (waiting_list s, status (threads s 1), ticks_wait (threads s 1), running s))
       (thread_wait ?s 5) = Inr ([1], THREAD_BLOCKED, 5, 2)" by (rule trans)
  moreover from b have "\<not> in_ready ?s 1" unfolding r .
  ultimately show ?thesis using d by blast
qed

subsection \<open>Arguments out of range\<close>

text \<open>
  C5 does not hold for \<open>thread_set_priority\<close>, which has no assertion: in round-robin
  mode, with another thread ready, \<open>thread_set_priority (100)\<close> by the initial thread
  returns normally with the priority 100 stored, above \<open>PRI_MAX\<close>.
\<close>

theorem thread_set_priority_stores_out_of_range:
  "map_sum id (\<lambda>s. (running s, thread_mlfqs s, ready_list s, priority (threads s 1)))
     with_worker = Inr (1, False, [2, 3], 31)
   \<and> map_sum id (\<lambda>s. (running s, priority (threads s 1), priority_orig (threads s 1)))
       (and_then with_worker (\<lambda>s. thread_set_priority s 100)) = Inr (1, 100, 100)
   \<and> PRI_MAX = 63"
  by code_simp

text \<open>
  C5, amended. \<open>thread_set_nice\<close> with nice outside \<open>[-20, 20]\<close> fails its assertion, so
  it stores nothing. The priority range is asserted where a thread is created:
  \<open>init_thread\<close>, and so \<open>thread_create\<close>, with a priority outside
  \<open>[PRI_MIN, PRI_MAX]\<close> fail the assertion. In MLFQ mode \<open>thread_set_priority\<close>
  by a running thread changes nothing, whatever its argument.
\<close>

theorem range_assertions:
  "(n < - 20 \<or> 20 < n \<longrightarrow> thread_set_nice s n = Inl Assertion_failed)
   \<and> (p < PRI_MIN \<or> PRI_MAX < p \<longrightarrow>
        init_thread s t nm p = Inl Assertion_failed
        \<and> thread_create s nm p (Some t) = Inl Assertion_failed)
   \<and> (thread_mlfqs sm \<and> thread_current sm = Inr cur \<longrightarrow> thread_set_priority sm q = Inr sm)"
proof (intro conjI impI)
  assume "n < - 20 \<or> 20 < n"
  then show "thread_set_nice s n = Inl Assertion_failed"
    by (auto simp: thread_set_nice_def thread_current_def Let_def)
next
  assume p: "p < PRI_MIN \<or> PRI_MAX < p"
  then show i: "init_thread s t nm p = Inl Assertion_failed"
    by (auto simp: init_thread_def)
  then show "thread_create s nm p (Some t) = Inl Assertion_failed"
    by (simp add: thread_create_def)
next
  assume "thread_mlfqs sm \<and> thread_current sm = Inr cur"
  then show "thread_set_priority sm q = Inr sm"
    by (simp add: thread_set_priority_def)
qed

theorem range_assertions_witness:
  "thread_set_nice (state_of with_worker) 21 = Inl Assertion_failed
   \<and> init_thread (state_of with_worker) 3 ''a'' 64 = Inl Assertion_failed
   \<and> thread_create (state_of with_worker) ''a'' 64 (Some 3) = Inl Assertion_failed
   \<and> thread_set_priority (state_of (started True)) 100 = Inr (state_of (started True))"
proof -
  let ?R = "state_of with_worker"
  let ?M = "state_of (started True)"
  have h1: "(21::int) < - 20 \<or> 20 < (21::int)" by simp
  have h2: "(64::int) < PRI_MIN \<or> PRI_MAX < 64" by (simp add: PRI_MAX_def)
  have h3: "thread_mlfqs ?M \<and> thread_current ?M = Inr 1"
    by code_simp
  from range_assertions [where n = 21 and s = ?R and p = 64 and t = 3 and nm = "''a''"
      and sm = ?M and cur = 1 and q = 100] h1 h2 h3
  show ?thesis by blast
qed

subsection \<open>Lowering a priority in MLFQ mode\<close>

lemma scan_bands_empty:
  assumes "\<forall>i. new_priority < i \<and> i \<le> k \<longrightarrow> ready_queues s i = []"
  shows "scan_bands s cur k new_priority = Inr s"
  using assms
proof (induction "nat (k - new_priority)" arbitrary: k)
  case 0
  then show ?case by (subst scan_bands.simps) simp
next
  case (Suc m)
  then have m: "m = nat ((k - 1) - new_priority)" and k: "new_priority < k" by linarith+
  from Suc.prems have "\<forall>i. new_priority < i \<and> i \<le> k - 1 \<longrightarrow> ready_queues s i = []"
    by simp
  with m have "scan_bands s cur (k - 1) new_priority = Inr s" by (rule Suc.hyps(1))
  moreover from Suc.prems k have "ready_queues s k = []" by simp
  ultimately show ?case using k by (subst scan_bands.simps) simp
qed

lemma scan_bands_yields:
  assumes "\<exists>i. new_priority < i \<and> i \<le> k \<and> ready_queues s i \<noteq> []"
  shows "\<exists>j. new_priority < j \<and> j \<le> k \<and> ready_queues s j \<noteq> []
    \<and> scan_bands s cur k new_priority =
        (case thread_yield s of
           Inl e \<Rightarrow> Inl e
         | Inr s' \<Rightarrow> if running s' = cur then scan_bands s' cur (j - 1) new_priority else Inr s')"
  using assms
proof (induction "nat (k - new_priority)" arbitrary: k)
  case 0
  then show ?case by auto
next
  case (Suc m)
  then have m: "m = nat ((k - 1) - new_priority)" and k: "new_priority < k" by linarith+
  show ?case
  proof (cases "ready_queues s k = []")
    case False
    with k have "scan_bands s cur k new_priority =
        (case thread_yield s of
           Inl e \<Rightarrow> Inl e
         | Inr s' \<Rightarrow> if running s' = cur then scan_bands s' cur (k - 1) new_priority else Inr s')"
      by (subst scan_bands.simps) simp
    with k False show ?thesis by blast
  next
    case True
    with Suc.prems have "\<exists>i. new_priority < i \<and> i \<le> k - 1 \<and> ready_queues s i \<noteq> []"
      by (metis le_less zle_diff1_eq)
    from Suc.hyps(1) [OF m this] obtain j where
      j: "new_priority < j" "j \<le> k - 1" "ready_queues s j \<noteq> []"
      "scan_bands s cur (k - 1) new_priority =
        (case thread_yield s of
           Inl e \<Rightarrow> Inl e
         | Inr s' \<Rightarrow> if running s' = cur then scan_bands s' cur (j - 1) new_priority else Inr s')"
      by blast
    from True k have "scan_bands s cur k new_priority = scan_bands s cur (k - 1) new_priority"
      by (subst scan_bands.simps) simp
    with j show ?thesis by (intro exI [of _ j]) simp
  qed
qed

text \<open>
  C6 does not hold as stated. In MLFQ mode the initial thread runs at priority 53 while
  the thread on page 3 is ready in band 63 (an interrupt handler unblocked it).
  \<open>thread_assign_priority\<close> to 43 scans the bands 53 down to 44 only, finds them empty
  and returns without a yield: the caller is still running, the higher-priority thread
  is still ready.
\<close>

theorem yield_skips_bands_above_old_priority:
  "map_sum id (\<lambda>s. (running s, thread_mlfqs s, priority (threads s 1), ready_queues s 63,
        status (threads s 3), priority (threads s 3)))
     higher_band_ready = Inr (1, True, 53, [3], THREAD_READY, 63)
   \<and> map_sum id (\<lambda>s. (running s, status (threads s 1), priority (threads s 1),
          ready_queues s 63, status (threads s 3)))
       (and_then higher_band_ready (\<lambda>s. thread_assign_priority s 43 1))
     = Inr (1, THREAD_RUNNING, 43, [3], THREAD_READY)"
  by code_simp

text \<open>
  C6, amended. In MLFQ mode, when \<open>thread_assign_priority\<close> is called with a new
  priority lower than the thread's old one, the bands scanned are those above the new
  priority up to the old priority. If all of them are empty the call only stores the
  new priority, whatever the bands above the old priority hold. If one of them is
  non-empty the call is a \<open>thread_yield\<close> in the state with the new priority stored, made
  at the highest non-empty band \<open>j\<close> of that range (after which the scan goes on below
  \<open>j\<close> if the caller is still the running thread).
\<close>

theorem thread_assign_priority_lowering:
  assumes "thread_mlfqs s" and "new_priority < priority (threads s cur)"
  shows "((\<forall>i. new_priority < i \<and> i \<le> priority (threads s cur) \<longrightarrow> ready_queues s i = [])
      \<longrightarrow> thread_assign_priority s new_priority cur
          = Inr (upd_thread cur (\<lambda>t. t\<lparr>priority := new_priority\<rparr>) s))
    \<and> ((\<exists>i. new_priority < i \<and> i \<le> priority (threads s cur) \<and> ready_queues s i \<noteq> [])
      \<longrightarrow> (\<exists>j. new_priority < j \<and> j \<le> priority (threads s cur) \<and> ready_queues s j \<noteq> []
           \<and> thread_assign_priority s new_priority cur =
               (case thread_yield (upd_thread cur (\<lambda>t. t\<lparr>priority := new_priority\<rparr>) s) of
                  Inl e \<Rightarrow> Inl e
                | Inr s' \<Rightarrow> if running s' = cur
                           then scan_bands s' cur (j - 1) new_priority else Inr s')))"
proof -
  let ?s1 = "upd_thread cur (\<lambda>t. t\<lparr>priority := new_priority\<rparr>) s"
  let ?old = "priority (threads s cur)"
  have q: "ready_queues ?s1 = ready_queues s" by (simp add: upd_thread_def)
  from assms have tap: "thread_assign_priority s new_priority cur = scan_bands ?s1 cur ?old new_priority"
    by (simp add: thread_assign_priority_def Let_def upd_thread_def)
  show ?thesis
  proof (intro conjI impI)
    assume "\<forall>i. new_priority < i \<and> i \<le> ?old \<longrightarrow> ready_queues s i = []"
    then have "\<forall>i. new_priority < i \<and> i \<le> ?old \<longrightarrow> ready_queues ?s1 i = []" by (simp add: q)
    from scan_bands_empty [OF this] tap
    show "thread_assign_priority s new_priority cur = Inr ?s1" by simp
  next
    assume "\<exists>i. new_priority < i \<and> i \<le> ?old \<and> ready_queues s i \<noteq> []"
    then have "\<exists>i. new_priority < i \<and> i \<le> ?old \<and> ready_queues ?s1 i \<noteq> []" by (simp add: q)
    from scan_bands_yields [OF this, of cur] tap
    show "\<exists>j. new_priority < j \<and> j \<le> ?old \<and> ready_queues s j \<noteq> []
           \<and> thread_assign_priority s new_priority cur =
               (case thread_yield ?s1 of
                  Inl e \<Rightarrow> Inl e
                | Inr s' \<Rightarrow> if running s' = cur
                           then scan_bands s' cur (j - 1) new_priority else Inr s')"
      by (simp add: q)
  qed
qed

theorem thread_assign_priority_lowering_witness:
  "thread_assign_priority (state_of higher_band_ready) 43 1
     = Inr (upd_thread 1 (\<lambda>t. t\<lparr>priority := 43\<rparr>) (state_of higher_band_ready))
   \<and> (\<exists>j. 53 < j \<and> j \<le> 63 \<and> ready_queues (state_of with_worker_mlfqs) j \<noteq> []
        \<and> thread_assign_priority (state_of with_worker_mlfqs) 53 1 =
            (case thread_yield (upd_thread 1 (\<lambda>t. t\<lparr>priority := 53\<rparr>) (state_of with_worker_mlfqs)) of
               Inl e \<Rightarrow> Inl e
             | Inr s' \<Rightarrow> if running s' = 1 then scan_bands s' 1 (j - 1) 53 else Inr s'))"
proof -
  let ?A = "state_of higher_band_ready"
  let ?B = "state_of with_worker_mlfqs"
  have a1: "thread_mlfqs ?A" by code_simp
  have a2: "priority (threads ?A 1) = 53" by code_simp
  have "\<forall>i\<in>{44..53}. ready_queues ?A i = []" by code_simp
  then have a3: "\<forall>i. 43 < i \<and> i \<le> priority (threads ?A 1) \<longrightarrow> ready_queues ?A i = []"
    unfolding a2 by auto
  have b1: "thread_mlfqs ?B" by code_simp
  have b2: "priority (threads ?B 1) = 63" by code_simp
  have "ready_queues ?B 63 \<noteq> []" by code_simp
  then have b3: "\<exists>i. 53 < i \<and> i \<le> priority (threads ?B 1) \<and> ready_queues ?B i \<noteq> []"
    unfolding b2 by (intro exI [of _ 63]) simp
  from thread_assign_priority_lowering [of ?A 43 1] a1 a2 a3
  have "thread_assign_priority ?A 43 1 = Inr (upd_thread 1 (\<lambda>t. t\<lparr>priority := 43\<rparr>) ?A)"
    by simp
  moreover from thread_assign_priority_lowering [of ?B 53 1] b1 b3
  have "\<exists>j. 53 < j \<and> j \<le> priority (threads ?B 1) \<and> ready_queues ?B j \<noteq> []
        \<and> thread_assign_priority ?B 53 1 =
            (case thread_yield (upd_thread 1 (\<lambda>t. t\<lparr>priority := 53\<rparr>) ?B) of
               Inl e \<Rightarrow> Inl e
             | Inr s' \<Rightarrow> if running s' = 1 then scan_bands s' 1 (j - 1) 53 else Inr s')"
    unfolding b2 by simp
  ultimately show ?thesis unfolding b2 by simp
qed

subsection \<open>Priority and original priority\<close>

lemma rr_inv_eq:
  "threads s' = threads s \<Longrightarrow> thread_mlfqs s' = thread_mlfqs s \<Longrightarrow> rr_inv s' = rr_inv s"
  by (simp add: rr_inv_def)

lemma rr_inv_upd_thread:
  assumes "rr_inv s"
    and "priority_orig (threads s t) \<le> priority (threads s t)
         \<Longrightarrow> priority_orig (f (threads s t)) \<le> priority (f (threads s t))"
  shows "rr_inv (upd_thread t f s)"
  using assms by (auto simp: rr_inv_def upd_thread_def)

lemma rr_inv_status [simp]:
  "rr_inv (upd_thread t (\<lambda>r. r\<lparr>status := x\<rparr>) s) = rr_inv s"
  by (auto simp: rr_inv_def upd_thread_def)

lemma rr_inv_ticks_wait [simp]:
  "rr_inv (upd_thread t (\<lambda>r. r\<lparr>ticks_wait := x r\<rparr>) s) = rr_inv s"
  by (auto simp: rr_inv_def upd_thread_def)

lemma rr_inv_tid [simp]:
  "rr_inv (upd_thread t (\<lambda>r. r\<lparr>tid := x\<rparr>) s) = rr_inv s"
  by (auto simp: rr_inv_def upd_thread_def)

lemma rr_inv_lists [simp]:
  "rr_inv (push_ready t s) = rr_inv s"
  "rr_inv (list_remove_elem t s) = rr_inv s"
  "rr_inv (list_remove_allelem t s) = rr_inv s"
  "rr_inv (s\<lparr>waiting_list := w\<rparr>) = rr_inv s"
  "rr_inv (s\<lparr>intr_off := b\<rparr>) = rr_inv s"
  "rr_inv (s\<lparr>in_intr := b\<rparr>) = rr_inv s"
  "rr_inv (s\<lparr>yield_on_return := b\<rparr>) = rr_inv s"
  "rr_inv (s\<lparr>idle_thread := i\<rparr>) = rr_inv s"
  "rr_inv (s\<lparr>thread_ticks := k\<rparr>) = rr_inv s"
  "rr_inv (s\<lparr>total_ticks := k\<rparr>) = rr_inv s"
  "rr_inv (s\<lparr>idle_ticks := k\<rparr>) = rr_inv s"
  "rr_inv (s\<lparr>kernel_ticks := k\<rparr>) = rr_inv s"
  "rr_inv (s\<lparr>next_tid := k\<rparr>) = rr_inv s"
  "rr_inv (s\<lparr>all_list := w\<rparr>) = rr_inv s"
  "rr_inv (s\<lparr>ready_list := w\<rparr>) = rr_inv s"
  "rr_inv (s\<lparr>load_avg := k\<rparr>) = rr_inv s"
  "rr_inv (s\<lparr>initial_thread := t\<rparr>) = rr_inv s"
  by (simp_all add: rr_inv_def push_ready_def list_remove_elem_def list_remove_allelem_def)

lemma rr_inv_schedule:
  assumes "schedule s = Inr s'" and "rr_inv s"
  shows "rr_inv s'"
  using schedule_Inr [OF assms(1)] assms(2)
  by (auto simp: rr_inv_def resumed_def)

lemma rr_inv_thread_yield:
  assumes "thread_yield s = Inr s'" and "rr_inv s"
  shows "rr_inv s'"
  using assms
  by (auto simp: thread_yield_def Let_def split: sum.splits if_splits
      dest!: rr_inv_schedule)

lemma rr_inv_thread_block:
  assumes "thread_block s = Inr s'" and "rr_inv s"
  shows "rr_inv s'"
  using assms
  by (auto simp: thread_block_def Let_def split: sum.splits if_splits
      dest!: rr_inv_schedule)

lemma rr_inv_thread_wait:
  assumes "thread_wait s n = Inr s'" and "rr_inv s"
  shows "rr_inv s'"
  using assms
  by (auto simp: thread_wait_def Let_def split: sum.splits if_splits
      dest!: rr_inv_schedule)

lemma rr_inv_thread_exit:
  assumes "thread_exit s = Inr s'" and "rr_inv s"
  shows "rr_inv s'"
  using assms
  by (auto simp: thread_exit_def Let_def split: sum.splits if_splits
      dest!: rr_inv_schedule)

lemma rr_inv_thread_unblock:
  assumes "thread_unblock s t = Inr s'" and "rr_inv s"
  shows "rr_inv s'"
  using assms
  by (auto simp: thread_unblock_def Let_def split: sum.splits if_splits
      dest!: rr_inv_schedule)

lemma rr_inv_init_thread:
  assumes "init_thread s t nm p = Inr s'" and "rr_inv s"
  shows "rr_inv s'"
  using assms
  by (auto simp: init_thread_def Let_def rr_inv_def upd_thread_def
      split: sum.splits if_splits)

lemma rr_inv_thread_create:
  assumes "thread_create s nm p page = Inr (tid_new, s')" and "rr_inv s"
  shows "rr_inv s'"
  using assms
  by (auto simp: thread_create_def Let_def allocate_tid_def
      split: option.splits sum.splits
      dest!: rr_inv_init_thread rr_inv_thread_unblock)

lemma rr_inv_thread_start:
  assumes "thread_start s page = Inr s'" and "rr_inv s"
  shows "rr_inv s'"
  using assms
  by (auto simp: thread_start_def Let_def
      split: sum.splits list.splits prod.splits if_splits
      dest!: rr_inv_thread_create)

lemma rr_inv_boot:
  assumes "thread_init (boot False) = Inr s"
  shows "rr_inv s"
proof -
  have "rr_inv ((boot False)\<lparr>ready_list := [], all_list := [], waiting_list := [],
           load_avg := 0, initial_thread := running (boot False)\<rparr>)"
    by (simp add: rr_inv_def boot_def zeroed_thread_def)
  with assms show ?thesis
    by (auto simp: thread_init_def Let_def allocate_tid_def boot_def
        split: sum.splits dest!: rr_inv_init_thread)
qed

lemma rr_inv_thread_assign_priority:
  assumes "thread_assign_priority s p cur = Inr s'" and "rr_inv s"
  shows "rr_inv s'"
proof -
  let ?s2 = "upd_thread cur (\<lambda>t. t\<lparr>priority_orig := p\<rparr>)
               (upd_thread cur (\<lambda>t. t\<lparr>priority := p\<rparr>) s)"
  from assms(2) have "rr_inv ?s2" by (auto simp: rr_inv_def upd_thread_def)
  moreover from assms have "thread_yield ?s2 = Inr s' \<or> s' = ?s2"
    by (auto simp: thread_assign_priority_def Let_def rr_inv_def upd_thread_def
        split: option.splits if_splits)
  ultimately show ?thesis by (auto dest: rr_inv_thread_yield)
qed

lemma rr_inv_thread_set_priority:
  assumes "thread_set_priority s p = Inr s'" and "rr_inv s"
  shows "rr_inv s'"
proof -
  from assms obtain cur where cur: "thread_current s = Inr cur"
    by (auto simp: thread_set_priority_def split: sum.splits)
  show ?thesis
  proof (cases "num_lock_donors (threads s cur) \<noteq> 0 \<and> p \<le> priority (threads s cur)")
    case True
    with assms cur have "s' = upd_thread cur (\<lambda>t. t\<lparr>priority_orig := p\<rparr>) s"
      by (auto simp: thread_set_priority_def rr_inv_def)
    with True assms(2) show ?thesis by (auto simp: rr_inv_def upd_thread_def)
  next
    case False
    with assms cur have "thread_assign_priority s p cur = Inr s'"
      by (auto simp: thread_set_priority_def rr_inv_def)
    then show ?thesis using assms(2) by (rule rr_inv_thread_assign_priority)
  qed
qed

lemma rr_inv_thread_set_nice:
  assumes "thread_set_nice s n = Inr s'" and "rr_inv s"
  shows "rr_inv s'"
  using assms
  by (auto simp: thread_set_nice_def rr_inv_def split: sum.splits if_splits)

lemma rr_inv_idle_store_handle:
  assumes "idle_store_handle s = Inr s'" and "rr_inv s"
  shows "rr_inv s'"
  using assms by (auto simp: idle_store_handle_def split: sum.splits)

lemma rr_inv_age_ready: "rr_inv s \<Longrightarrow> rr_inv (age_ready ts s)"
proof (induction ts arbitrary: s)
  case Nil
  then show ?case by simp
next
  case (Cons t ts)
  from Cons.prems have "priority_orig (threads s t) \<le> priority (threads s t)"
    by (simp add: rr_inv_def)
  then have "priority_orig (threads s t) \<le> priority (threads s t) + 1" by linarith
  with Cons.prems have "rr_inv (upd_thread t (\<lambda>r. r\<lparr>priority := priority r + 1\<rparr>) s)"
    by (auto simp: rr_inv_def upd_thread_def)
  with Cons show ?case by simp
qed

lemma rr_inv_wake_sleepers: "rr_inv (fst sf) \<Longrightarrow> rr_inv (fst (wake_sleepers cur es sf))"
  by (induction es arbitrary: sf) (simp_all add: Let_def)

lemma rr_inv_thread_tick:
  assumes "thread_tick s ticks = Inr s'" and "rr_inv s"
  shows "rr_inv s'"
proof -
  from assms(2) have m: "\<not> thread_mlfqs s" by (simp add: rr_inv_def)
  from assms obtain cur where cur: "thread_current s = Inr cur"
    by (auto simp: thread_tick_def split: sum.splits)
  let ?s1 = "if Some cur = idle_thread s then s\<lparr>idle_ticks := idle_ticks s + 1\<rparr>
             else s\<lparr>kernel_ticks := kernel_ticks s + 1\<rparr>"
  have "rr_inv ?s1" using assms(2) by simp
  then have "rr_inv (aging_tick ?s1)" by (simp add: aging_tick_def Let_def rr_inv_age_ready)
  then have w: "rr_inv (fst (wake_sleepers cur (waiting_list (aging_tick ?s1)) (aging_tick ?s1, False)))"
    by (intro rr_inv_wake_sleepers) simp
  from assms(1) cur m show ?thesis
    using w by (auto simp: thread_tick_def Let_def split: if_splits)
qed

lemma rr_inv_thread_schedule_tail:
  assumes "thread_schedule_tail s prev = Inr s'" and "rr_inv s"
  shows "rr_inv s'"
  using thread_schedule_tail_Inr [OF assms(1)] assms(2)
  by (auto simp: rr_inv_def resumed_def)

lemma init_thread_orig_eq:
  assumes "init_thread s t nm p = Inr s'"
  shows "priority_orig (threads s' t) = priority (threads s' t)"
  using assms
  by (auto simp: init_thread_def Let_def upd_thread_def split: sum.splits if_splits)

lemma rr_inv_both_stores:
  assumes "rr_inv s"
  shows "rr_inv (upd_thread cur (\<lambda>r. r\<lparr>priority_orig := q\<rparr>)
           (upd_thread cur (\<lambda>r. r\<lparr>priority := q\<rparr>) s))"
  using assms by (auto simp: rr_inv_def upd_thread_def)

text \<open>
  C3 does not hold in MLFQ mode. After the start the initial thread has priority and
  original priority 63. It runs through the timer ticks 1 to 4; at tick 4 its
  \<open>recent_cpu\<close> is 4 and the recomputation stores priority 62, below its
  \<open>priority_orig\<close>, which is still 63.
\<close>

theorem mlfqs_tick_drops_priority_below_orig:
  "map_sum id (\<lambda>s. (running s, status (threads s 1), priority (threads s 1), priority_orig (threads s 1)))
     (started True) = Inr (1, THREAD_RUNNING, 63, 63)
   \<and> map_sum id (\<lambda>s. (running s, status (threads s 1), all_list s, priority (threads s 1),
          priority_orig (threads s 1)))
       four_ticks = Inr (1, THREAD_RUNNING, [1], 62, 63)"
  by code_simp

lemma returned_state: "\<not> isl r \<Longrightarrow> r = Inr (state_of r)"
  by (cases r) (simp_all add: state_of_def)

lemma keptI: "r = Inr s' \<Longrightarrow> rr_inv s' \<Longrightarrow> kept r"
  by (simp add: kept_def)

text \<open>
  C3, amended. In round-robin mode the order \<open>priority \<ge> priority_orig\<close> holds of every
  thread record after \<open>thread_init\<close> on the boot state, and each operation of thread.c
  that starts where the order holds and is not preempted between its own steps leaves
  it in force: \<open>init_thread\<close> (which makes the two equal in the new record),
  \<open>thread_create\<close>, \<open>thread_start\<close>, the idle thread's store of its handle,
  \<open>thread_tick\<close>, \<open>thread_schedule_tail\<close>, \<open>thread_block\<close>, \<open>thread_wait\<close>,
  \<open>thread_unblock\<close>, \<open>thread_yield\<close>, \<open>thread_exit\<close>, \<open>thread_set_nice\<close> and
  \<open>thread_set_priority\<close>. The two stores of \<open>thread_set_priority\<close> keep the order
  whatever the ready list holds, also when it is empty and the lookup of its maximum
  reads the sentinel, and so does the yield that may follow them. Nothing is stated
  of MLFQ mode, nor of a call preempted between its steps.
\<close>

theorem round_robin_operations_keep_priority:
  assumes "rr_inv s"
  shows "(thread_init (boot False) = Inr s0 \<longrightarrow> rr_inv s0)
    \<and> (init_thread s t nm p = Inr s1 \<longrightarrow>
            rr_inv s1 \<and> priority_orig (threads s1 t) = priority (threads s1 t))
    \<and> (thread_create s nm p page = Inr (tid_new, s2) \<longrightarrow> rr_inv s2)
    \<and> (thread_start s page = Inr s3 \<longrightarrow> rr_inv s3)
    \<and> (idle_store_handle s = Inr s4 \<longrightarrow> rr_inv s4)
    \<and> (thread_tick s ticks = Inr s5 \<longrightarrow> rr_inv s5)
    \<and> (thread_schedule_tail s prev = Inr s6 \<longrightarrow> rr_inv s6)
    \<and> (thread_block s = Inr s7 \<longrightarrow> rr_inv s7)
    \<and> (thread_wait s n = Inr s8 \<longrightarrow> rr_inv s8)
    \<and> (thread_unblock s u = Inr s9 \<longrightarrow> rr_inv s9)
    \<and> (thread_yield s = Inr s10 \<longrightarrow> rr_inv s10)
    \<and> (thread_exit s = Inr s11 \<longrightarrow> rr_inv s11)
    \<and> (thread_set_nice s k = Inr s12 \<longrightarrow> rr_inv s12)
    \<and> (thread_set_priority s q = Inr s13 \<longrightarrow> rr_inv s13)
    \<and> rr_inv (upd_thread cur (\<lambda>r. r\<lparr>priority_orig := q\<rparr>)
          (upd_thread cur (\<lambda>r. r\<lparr>priority := q\<rparr>) s))
    \<and> (thread_yield (upd_thread cur (\<lambda>r. r\<lparr>priority_orig := q\<rparr>)
          (upd_thread cur (\<lambda>r. r\<lparr>priority := q\<rparr>) s)) = Inr s14 \<longrightarrow> rr_inv s14)"
  using assms
  by (intro conjI impI)
    (blast intro: rr_inv_boot rr_inv_init_thread init_thread_orig_eq rr_inv_thread_create
      rr_inv_thread_start rr_inv_idle_store_handle rr_inv_thread_tick
      rr_inv_thread_schedule_tail rr_inv_thread_block rr_inv_thread_wait
      rr_inv_thread_unblock rr_inv_thread_yield rr_inv_thread_exit rr_inv_thread_set_nice
      rr_inv_thread_set_priority rr_inv_both_stores)+

theorem round_robin_operations_keep_priority_witness:
  "rr_inv (state_of with_nascent)
   \<and> kept (thread_init (boot False))
   \<and> kept (init_thread (state_of with_nascent) 5 ''c'' PRI_DEFAULT)
   \<and> kept (map_sum id snd (thread_create (state_of with_nascent) ''c'' PRI_DEFAULT (Some 5)))
   \<and> kept (thread_start (state_of with_nascent) (Some 5))
   \<and> kept (idle_store_handle (state_of with_nascent))
   \<and> kept (thread_tick (state_of with_nascent) 1)
   \<and> kept (thread_schedule_tail (state_of with_nascent) None)
   \<and> kept (thread_block (state_of with_nascent))
   \<and> kept (thread_wait (state_of with_nascent) 5)
   \<and> kept (thread_unblock (state_of with_nascent) 4)
   \<and> kept (thread_yield (state_of with_nascent))
   \<and> kept (thread_exit (state_of with_nascent))
   \<and> kept (thread_set_nice (state_of with_nascent) 0)
   \<and> kept (thread_set_priority (state_of with_nascent) 40)
   \<and> kept (thread_yield (upd_thread 1 (\<lambda>r. r\<lparr>priority_orig := 40\<rparr>)
          (upd_thread 1 (\<lambda>r. r\<lparr>priority := 40\<rparr>) (state_of with_nascent))))"
proof -
  let ?W = "state_of with_nascent"
  let ?B = "upd_thread 1 (\<lambda>r. r\<lparr>priority_orig := 40\<rparr>)
              (upd_thread 1 (\<lambda>r. r\<lparr>priority := 40\<rparr>) ?W)"
  let ?c = "thread_create ?W ''c'' PRI_DEFAULT (Some 5)"
  have W: "rr_inv ?W"
    by (simp add: rr_inv_def with_nascent_def with_worker_def started_def idle_first_run_def
        state_of_def exec_defs)
  note T = round_robin_operations_keep_priority [OF W, where cur = 1 and q = 40]
  note T1 = T [THEN conjunct1, rule_format]
  note R2 = T [THEN conjunct2]
  note T2 = R2 [THEN conjunct1, rule_format, THEN conjunct1]
  note R3 = R2 [THEN conjunct2]
  note T3 = R3 [THEN conjunct1, rule_format]
  note R4 = R3 [THEN conjunct2]
  note T4 = R4 [THEN conjunct1, rule_format]
  note R5 = R4 [THEN conjunct2]
  note T5 = R5 [THEN conjunct1, rule_format]
  note R6 = R5 [THEN conjunct2]
  note T6 = R6 [THEN conjunct1, rule_format]
  note R7 = R6 [THEN conjunct2]
  note T7 = R7 [THEN conjunct1, rule_format]
  note R8 = R7 [THEN conjunct2]
  note T8 = R8 [THEN conjunct1, rule_format]
  note R9 = R8 [THEN conjunct2]
  note T9 = R9 [THEN conjunct1, rule_format]
  note R10 = R9 [THEN conjunct2]
  note T10 = R10 [THEN conjunct1, rule_format]
  note R11 = R10 [THEN conjunct2]
  note T11 = R11 [THEN conjunct1, rule_format]
  note R12 = R11 [THEN conjunct2]
  note T12 = R12 [THEN conjunct1, rule_format]
  note R13 = R12 [THEN conjunct2]
  note T13 = R13 [THEN conjunct1, rule_format]
  note R14 = R13 [THEN conjunct2]
  note T14 = R14 [THEN conjunct1, rule_format]
  note R15 = R14 [THEN conjunct2]
  note T15 = R15 [THEN conjunct1, rule_format]
  note T16 = R15 [THEN conjunct2, rule_format]
  have "\<not> isl (thread_init (boot False))" by code_simp
  then have e1: "thread_init (boot False) = Inr (state_of (thread_init (boot False)))"
    by (rule returned_state)
  have k1: "kept (thread_init (boot False))" by (rule keptI [OF e1 T1 [OF e1]])
  have "\<not> isl (init_thread ?W 5 ''c'' PRI_DEFAULT)" by code_simp
  then have e2: "init_thread ?W 5 ''c'' PRI_DEFAULT = Inr (state_of (init_thread ?W 5 ''c'' PRI_DEFAULT))"
    by (rule returned_state)
  have k2: "kept (init_thread ?W 5 ''c'' PRI_DEFAULT)" by (rule keptI [OF e2 T2 [OF e2]])
  have "\<not> isl (thread_start ?W (Some 5))" by code_simp
  then have e4: "thread_start ?W (Some 5) = Inr (state_of (thread_start ?W (Some 5)))"
    by (rule returned_state)
  have k4: "kept (thread_start ?W (Some 5))" by (rule keptI [OF e4 T4 [OF e4]])
  have "\<not> isl (idle_store_handle ?W)" by code_simp
  then have e5: "idle_store_handle ?W = Inr (state_of (idle_store_handle ?W))"
    by (rule returned_state)
  have k5: "kept (idle_store_handle ?W)" by (rule keptI [OF e5 T5 [OF e5]])
  have "\<not> isl (thread_tick ?W 1)" by code_simp
  then have e6: "thread_tick ?W 1 = Inr (state_of (thread_tick ?W 1))"
    by (rule returned_state)
  have k6: "kept (thread_tick ?W 1)" by (rule keptI [OF e6 T6 [OF e6]])
  have "\<not> isl (thread_schedule_tail ?W None)" by code_simp
  then have e7: "thread_schedule_tail ?W None = Inr (state_of (thread_schedule_tail ?W None))"
    by (rule returned_state)
  have k7: "kept (thread_schedule_tail ?W None)" by (rule keptI [OF e7 T7 [OF e7]])
  have "\<not> isl (thread_block ?W)" by code_simp
  then have e8: "thread_block ?W = Inr (state_of (thread_block ?W))"
    by (rule returned_state)
  have k8: "kept (thread_block ?W)" by (rule keptI [OF e8 T8 [OF e8]])
  have "\<not> isl (thread_wait ?W 5)" by code_simp
  then have e9: "thread_wait ?W 5 = Inr (state_of (thread_wait ?W 5))"
    by (rule returned_state)
  have k9: "kept (thread_wait ?W 5)" by (rule keptI [OF e9 T9 [OF e9]])
  have "\<not> isl (thread_unblock ?W 4)" by code_simp
  then have e10: "thread_unblock ?W 4 = Inr (state_of (thread_unblock ?W 4))"
    by (rule returned_state)
  have k10: "kept (thread_unblock ?W 4)" by (rule keptI [OF e10 T10 [OF e10]])
  have "\<not> isl (thread_yield ?W)" by code_simp
  then have e11: "thread_yield ?W = Inr (state_of (thread_yield ?W))"
    by (rule returned_state)
  have k11: "kept (thread_yield ?W)" by (rule keptI [OF e11 T11 [OF e11]])
  have "\<not> isl (thread_exit ?W)" by code_simp
  then have e12: "thread_exit ?W = Inr (state_of (thread_exit ?W))"
    by (rule returned_state)
  have k12: "kept (thread_exit ?W)" by (rule keptI [OF e12 T12 [OF e12]])
  have "\<not> isl (thread_set_nice ?W 0)" by code_simp
  then have e13: "thread_set_nice ?W 0 = Inr (state_of (thread_set_nice ?W 0))"
    by (rule returned_state)
  have k13: "kept (thread_set_nice ?W 0)" by (rule keptI [OF e13 T13 [OF e13]])
  have "\<not> isl (thread_set_priority ?W 40)" by code_simp
  then have e14: "thread_set_priority ?W 40 = Inr (state_of (thread_set_priority ?W 40))"
    by (rule returned_state)
  have k14: "kept (thread_set_priority ?W 40)" by (rule keptI [OF e14 T14 [OF e14]])
  have "\<not> isl (thread_yield ?B)" by code_simp
  then have e16: "thread_yield ?B = Inr (state_of (thread_yield ?B))"
    by (rule returned_state)
  have k16: "kept (thread_yield ?B)" by (rule keptI [OF e16 T16 [OF e16]])
  have "\<not> isl ?c" by code_simp
  then have e3: "?c = Inr (fst (projr ?c), snd (projr ?c))" by (cases ?c) simp_all
  have "map_sum id snd ?c = Inr (snd (projr ?c))" by (subst e3) simp
  then have k3: "kept (map_sum id snd ?c)" by (rule keptI [OF _ T3 [OF e3]])
  from W k3 k1 k2 k4 k5 k6 k7 k8 k9 k10 k11 k12 k13 k14 k16 show ?thesis by blast
qed

text \<open>
  \<^verbatim>\<open>thread_set_priority\<close> does not disable interrupts (\<^verbatim>\<open>thread_set_nice\<close> does, line
  597). In the run \<open>preempted_set_priority\<close> the initial thread, of priority and
  original priority 31 and without donors, raises its priority to 40 and is preempted
  between the two stores: it ends with priority 31 and original priority 40. The same
  call without the preemption ends with 40 and 40.
\<close>

lemma preempted_set_priority_result:
  "map_sum id (\<lambda>s. (running s, thread_mlfqs s, priority (threads s 1),
        priority_orig (threads s 1), num_lock_donors (threads s 1)))
     (started False) = Inr (1, False, 31, 31, 0)
   \<and> map_sum id (\<lambda>s. (running s, status (threads s 1), priority (threads s 1),
          priority_orig (threads s 1)))
       (and_then (started False) (\<lambda>s. thread_set_priority s 40))
     = Inr (1, THREAD_RUNNING, 40, 40)
   \<and> map_sum id (\<lambda>s. (running s, status (threads s 1), priority (threads s 1),
          priority_orig (threads s 1)))
       preempted_set_priority = Inr (1, THREAD_RUNNING, 31, 40)"
  by code_simp

subsection \<open>The load average\<close>

lemma tmod_eq_0_iff:
  assumes "0 < b"
  shows "(tmod a b = 0) = (b dvd a)"
proof (cases "0 \<le> a")
  case True
  with assms have "tmod a b = a mod b"
    by (simp add: tmod_def tdiv_pos minus_mult_div_eq_mod)
  then show ?thesis by (simp add: dvd_eq_mod_eq_0)
next
  case False
  with assms have "tmod a b = - ((- a) mod b)"
    by (simp add: tmod_def tdiv_neg minus_mult_div_eq_mod [symmetric])
  then show ?thesis by (simp add: dvd_eq_mod_eq_0 [symmetric])
qed

lemma tick_multiple_of_4:
  assumes "tmod ticks TIMER_FREQ = 0"
  shows "tmod ticks 4 = 0"
proof -
  from assms have "100 dvd ticks" by (simp add: TIMER_FREQ_def tmod_eq_0_iff)
  then have "4 dvd ticks" by (rule dvd_trans [rotated]) simp
  then show ?thesis by (simp add: tmod_eq_0_iff)
qed

lemma count_ready_eq:
  "count_ready s ts k =
     k + int (length [t \<leftarrow> ts. status (threads s t) = THREAD_READY
                               \<or> status (threads s t) = THREAD_RUNNING])"
  by (induction ts arbitrary: k) simp_all

lemma count_ready_ready_threads:
  assumes "\<forall>i. idle_thread s = Some i \<longrightarrow> i \<notin> set (all_list s)"
  shows "count_ready (charged s cur) (all_list (charged s cur)) 0 = ready_threads s"
proof -
  have st: "status (threads (charged s cur) t) = status (threads s t)" for t
    by (simp add: charged_def upd_thread_def)
  have al: "all_list (charged s cur) = all_list s"
    by (simp add: charged_def upd_thread_def)
  have "[t \<leftarrow> all_list s. status (threads s t) = THREAD_READY \<or> status (threads s t) = THREAD_RUNNING]
      = [t \<leftarrow> all_list s. Some t \<noteq> idle_thread s \<and>
            (status (threads s t) = THREAD_READY \<or> status (threads s t) = THREAD_RUNNING)]"
    using assms by (intro filter_cong) auto
  then show ?thesis by (simp add: count_ready_eq st al ready_threads_def)
qed

lemma fraction_59_60: "div_fp (convert_fp 59) (convert_fp 60) = 16110"
  by (simp add: div_fp_def convert_fp_def FP_F_def s32_def tdiv_def)

lemma fraction_1_60: "div_fp (convert_fp 1) (convert_fp 60) = 273"
  by (simp add: div_fp_def convert_fp_def FP_F_def s32_def tdiv_def)

lemma next_load_avg_exact:
  assumes "0 \<le> la" "la < 536870912" "0 \<le> n" "n < 65536"
  shows "next_load_avg la n = 16110 * la div 16384 + 273 * n"
    and "0 \<le> next_load_avg la n" and "next_load_avg la n < 1000000000"
proof -
  have q: "0 \<le> 16110 * la div 16384" "16110 * la div 16384 \<le> la"
    using assms(1) by simp_all
  have a: "mul_fp 16110 la = 16110 * la div 16384"
    using assms(1,2) q by (simp add: mul_fp_def FP_F_def tdiv_pos s32_id)
  have b: "convert_fp n = n * 16384"
    using assms(3,4) by (simp add: convert_fp_def FP_F_def s32_id)
  have c: "mul_fp 273 (n * 16384) = 273 * n"
    using assms(3,4) by (simp add: mul_fp_def FP_F_def tdiv_pos s32_id)
  show e: "next_load_avg la n = 16110 * la div 16384 + 273 * n"
    using assms q by (simp add: next_load_avg_def fraction_59_60 fraction_1_60 a b c s32_id)
  show "0 \<le> next_load_avg la n" "next_load_avg la n < 1000000000"
    using assms q unfolding e by linarith+
qed

lemma divisor_nonzero:
  assumes "0 \<le> la" "la < 1000000000"
  shows "add_fp_int (mul_fp_int la 2) 1 \<noteq> 0"
  using assms by (simp add: add_fp_int_def mul_fp_int_def FP_F_def s32_id)

lemma recompute_thread_result:
  assumes "tmod ticks TIMER_FREQ = 0"
    and "add_fp_int (mul_fp_int (load_avg (fst sf)) 2) 1 \<noteq> 0"
  shows "\<exists>sf'. recompute_thread ticks cur t sf = Inr sf'
    \<and> load_avg (fst sf') = load_avg (fst sf)
    \<and> (\<forall>u. status (threads (fst sf') u) = status (threads (fst sf) u))
    \<and> (\<forall>u. nice (threads (fst sf') u) = nice (threads (fst sf) u))
    \<and> (\<forall>u. u \<noteq> t \<longrightarrow> recent_cpu (threads (fst sf') u) = recent_cpu (threads (fst sf) u))
    \<and> recent_cpu (threads (fst sf') t) =
        (if status (threads (fst sf) t) \<noteq> THREAD_NASCENT
         then next_recent_cpu (load_avg (fst sf)) (threads (fst sf) t)
         else recent_cpu (threads (fst sf) t))"
proof (cases sf)
  case (Pair s f)
  with assms show ?thesis
    by (auto simp: recompute_thread_def Let_def upd_thread_def list_remove_elem_def
        list_push_back_def next_recent_cpu_def)
qed

lemma recompute_pass_result:
  assumes "tmod ticks TIMER_FREQ = 0"
    and "add_fp_int (mul_fp_int (load_avg (fst sf)) 2) 1 \<noteq> 0"
    and "distinct ts"
  shows "\<exists>sf'. recompute_pass ticks cur ts sf = Inr sf'
    \<and> load_avg (fst sf') = load_avg (fst sf)
    \<and> (\<forall>u. status (threads (fst sf') u) = status (threads (fst sf) u))
    \<and> (\<forall>u. nice (threads (fst sf') u) = nice (threads (fst sf) u))
    \<and> (\<forall>u. u \<notin> set ts \<longrightarrow> recent_cpu (threads (fst sf') u) = recent_cpu (threads (fst sf) u))
    \<and> (\<forall>u\<in>set ts. status (threads (fst sf) u) \<noteq> THREAD_NASCENT \<longrightarrow>
          recent_cpu (threads (fst sf') u) = next_recent_cpu (load_avg (fst sf)) (threads (fst sf) u))"
  using assms(2,3)
proof (induction ts arbitrary: sf)
  case Nil
  then show ?case by simp
next
  case (Cons t ts)
  from recompute_thread_result [OF assms(1) Cons.prems(1), of cur t]
  obtain sf1 where 1: "recompute_thread ticks cur t sf = Inr sf1"
    "load_avg (fst sf1) = load_avg (fst sf)"
    "\<forall>u. status (threads (fst sf1) u) = status (threads (fst sf) u)"
    "\<forall>u. nice (threads (fst sf1) u) = nice (threads (fst sf) u)"
    "\<forall>u. u \<noteq> t \<longrightarrow> recent_cpu (threads (fst sf1) u) = recent_cpu (threads (fst sf) u)"
    "recent_cpu (threads (fst sf1) t) =
        (if status (threads (fst sf) t) \<noteq> THREAD_NASCENT
         then next_recent_cpu (load_avg (fst sf)) (threads (fst sf) t)
         else recent_cpu (threads (fst sf) t))"
    by blast
  from Cons.prems 1(2) have d: "add_fp_int (mul_fp_int (load_avg (fst sf1)) 2) 1 \<noteq> 0"
    and ts: "distinct ts" and t: "t \<notin> set ts" by simp_all
  from Cons.IH [OF d ts]
  obtain sf2 where 2: "recompute_pass ticks cur ts sf1 = Inr sf2"
    "load_avg (fst sf2) = load_avg (fst sf1)"
    "\<forall>u. status (threads (fst sf2) u) = status (threads (fst sf1) u)"
    "\<forall>u. nice (threads (fst sf2) u) = nice (threads (fst sf1) u)"
    "\<forall>u. u \<notin> set ts \<longrightarrow> recent_cpu (threads (fst sf2) u) = recent_cpu (threads (fst sf1) u)"
    "\<forall>u\<in>set ts. status (threads (fst sf1) u) \<noteq> THREAD_NASCENT \<longrightarrow>
          recent_cpu (threads (fst sf2) u) = next_recent_cpu (load_avg (fst sf1)) (threads (fst sf1) u)"
    by blast
  have same: "next_recent_cpu (load_avg (fst sf1)) (threads (fst sf1) u)
      = next_recent_cpu (load_avg (fst sf)) (threads (fst sf) u)" if "u \<noteq> t" for u
    using 1(2,4,5) that by (simp add: next_recent_cpu_def)
  have "recompute_pass ticks cur (t # ts) sf = Inr sf2" using 1(1) 2(1) by simp
  moreover have "load_avg (fst sf2) = load_avg (fst sf)" using 1(2) 2(2) by simp
  moreover have "\<forall>u. status (threads (fst sf2) u) = status (threads (fst sf) u)"
    using 1(3) 2(3) by simp
  moreover have "\<forall>u. nice (threads (fst sf2) u) = nice (threads (fst sf) u)"
    using 1(4) 2(4) by simp
  moreover have "\<forall>u. u \<notin> set (t # ts) \<longrightarrow>
      recent_cpu (threads (fst sf2) u) = recent_cpu (threads (fst sf) u)"
    using 1(5) 2(5) by simp
  moreover have "\<forall>u\<in>set (t # ts). status (threads (fst sf) u) \<noteq> THREAD_NASCENT \<longrightarrow>
      recent_cpu (threads (fst sf2) u) = next_recent_cpu (load_avg (fst sf)) (threads (fst sf) u)"
  proof (intro ballI impI)
    fix u assume u: "u \<in> set (t # ts)" and n: "status (threads (fst sf) u) \<noteq> THREAD_NASCENT"
    show "recent_cpu (threads (fst sf2) u) = next_recent_cpu (load_avg (fst sf)) (threads (fst sf) u)"
    proof (cases "u = t")
      case True
      with t 2(5) 1(6) n show ?thesis by simp
    next
      case False
      with u have "u \<in> set ts" by simp
      with 2(6) 1(3) n have "recent_cpu (threads (fst sf2) u)
          = next_recent_cpu (load_avg (fst sf1)) (threads (fst sf1) u)" by simp
      with same [OF False] show ?thesis by simp
    qed
  qed
  ultimately show ?case by blast
qed

lemma wake_sleepers_frame:
  "load_avg (fst (wake_sleepers cur es sf)) = load_avg (fst sf)
   \<and> (\<forall>u. recent_cpu (threads (fst (wake_sleepers cur es sf)) u) = recent_cpu (threads (fst sf) u))"
  by (induction es arbitrary: sf)
    (simp_all add: Let_def upd_thread_def list_remove_elem_def push_ready_def)

lemma ready_threads_bounds: "0 \<le> ready_threads s \<and> ready_threads s \<le> int (length (all_list s))"
  by (simp add: ready_threads_def)

lemma mlfqs_tick_result:
  assumes tk: "tmod ticks TIMER_FREQ = 0"
    and la: "0 \<le> load_avg s" "load_avg s < 536870912"
    and len: "length (all_list s) < 65536"
    and d: "distinct (all_list s)"
    and idle: "\<forall>i. idle_thread s = Some i \<longrightarrow> i \<notin> set (all_list s)"
  shows "\<exists>sf. mlfqs_tick cur ticks s = Inr sf
    \<and> load_avg (fst sf) = next_load_avg (load_avg s) (ready_threads s)
    \<and> (\<forall>t\<in>set (all_list s). status (threads s t) \<noteq> THREAD_NASCENT \<longrightarrow>
          recent_cpu (threads (fst sf) t)
            = next_recent_cpu (next_load_avg (load_avg s) (ready_threads s))
                (threads (charged s cur) t))"
proof -
  let ?c = "charged s cur"
  let ?L = "next_load_avg (load_avg s) (ready_threads s)"
  let ?s2 = "?c\<lparr>load_avg := ?L\<rparr>"
  have c: "load_avg ?c = load_avg s" "all_list ?c = all_list s"
    by (simp_all add: charged_def upd_thread_def)
  have st: "status (threads ?c t) = status (threads s t)" for t
    by (simp add: charged_def upd_thread_def)
  from ready_threads_bounds [of s] len
  have n: "0 \<le> ready_threads s" "ready_threads s < 65536" by simp_all
  from next_load_avg_exact(2,3) [OF la n] have L: "0 \<le> ?L" "?L < 1000000000" .
  have step: "mlfqs_tick cur ticks s = recompute_pass ticks cur (all_list s) (?s2, False)"
    using tk tick_multiple_of_4 [OF tk] count_ready_ready_threads [OF idle, of cur]
    by (simp add: mlfqs_tick_def Let_def c charged_def [symmetric])
  have dz: "add_fp_int (mul_fp_int (load_avg (fst (?s2, False))) 2) 1 \<noteq> 0"
    using divisor_nonzero [OF L] by simp
  from recompute_pass_result [OF tk dz d, of cur]
  obtain sf where sf: "recompute_pass ticks cur (all_list s) (?s2, False) = Inr sf"
    "load_avg (fst sf) = ?L"
    "\<forall>u\<in>set (all_list s). status (threads ?s2 u) \<noteq> THREAD_NASCENT \<longrightarrow>
          recent_cpu (threads (fst sf) u) = next_recent_cpu ?L (threads ?s2 u)"
    by auto
  from sf(3) have "\<forall>t\<in>set (all_list s). status (threads s t) \<noteq> THREAD_NASCENT \<longrightarrow>
      recent_cpu (threads (fst sf) t) = next_recent_cpu ?L (threads ?c t)"
    by (simp add: st)
  with step sf(1,2) show ?thesis by simp
qed

text \<open>The decay of \<open>recent_cpu\<close> (line 222) without wrap-around.\<close>

lemma decay_coefficient:
  assumes "0 \<le> la" "la < 1000000000"
  shows "div_fp (mul_fp_int la 2) (add_fp_int (mul_fp_int la 2) 1) = tdiv (2 * la * FP_F) (2 * la + FP_F)"
    and "0 \<le> tdiv (2 * la * FP_F) (2 * la + FP_F)"
    and "tdiv (2 * la * FP_F) (2 * la + FP_F) < FP_F"
proof -
  have t: "tdiv (2 * la * FP_F) (2 * la + FP_F) = 2 * la * 16384 div (2 * la + 16384)"
    using assms(1) by (simp add: tdiv_pos FP_F_def)
  have u: "2 * la * 16384 div (2 * la + 16384) < 16384"
  proof (rule ccontr)
    let ?d = "2 * la + 16384" and ?x = "2 * la * 16384"
    assume "\<not> ?x div ?d < 16384"
    then have "16384 \<le> ?x div ?d" by simp
    moreover have d: "0 < ?d" using assms(1) by simp
    ultimately have "?d * 16384 \<le> ?d * (?x div ?d)" by (intro mult_left_mono) simp_all
    moreover have "?d * (?x div ?d) + ?x mod ?d = ?x" by (rule mult_div_mod_eq)
    moreover have "0 \<le> ?x mod ?d" using d by (rule pos_mod_sign)
    ultimately have "?d * 16384 \<le> ?x" by linarith
    then show False using assms(1) by simp
  qed
  have l: "0 \<le> 2 * la * 16384 div (2 * la + 16384)"
    using assms(1) by (simp add: pos_imp_zdiv_nonneg_iff)
  show "0 \<le> tdiv (2 * la * FP_F) (2 * la + FP_F)" using l t by simp
  show "tdiv (2 * la * FP_F) (2 * la + FP_F) < FP_F" using u t by (simp add: FP_F_def)
  have m: "mul_fp_int la 2 = 2 * la" using assms by (simp add: mul_fp_int_def s32_id)
  have a: "add_fp_int (2 * la) 1 = 2 * la + 16384"
    using assms by (simp add: add_fp_int_def FP_F_def s32_id)
  show "div_fp (mul_fp_int la 2) (add_fp_int (mul_fp_int la 2) 1) = tdiv (2 * la * FP_F) (2 * la + FP_F)"
    unfolding m a using l u t by (simp add: div_fp_def FP_F_def s32_id mult.commute)
qed

lemma abs_tdiv: "\<bar>tdiv a b\<bar> = \<bar>a\<bar> div \<bar>b\<bar>"
proof -
  have "0 \<le> \<bar>a\<bar> div \<bar>b\<bar>" by (simp add: div_int_pos_iff)
  then have nn: "\<bar>\<bar>a\<bar> div \<bar>b\<bar>\<bar> = \<bar>a\<bar> div \<bar>b\<bar>" by (rule abs_of_nonneg)
  show ?thesis
    by (cases "a = 0"; cases "b = 0") (simp_all add: tdiv_def abs_mult nn abs_sgn_eq_1)
qed

lemma scaled_product_bound:
  fixes c rc :: int
  assumes "0 \<le> c" "c < 16384"
  shows "\<bar>tdiv (c * rc) 16384\<bar> \<le> \<bar>rc\<bar>"
proof -
  have "\<bar>c * rc\<bar> = c * \<bar>rc\<bar>" using assms(1) by (simp add: abs_mult)
  also have "\<dots> \<le> 16384 * \<bar>rc\<bar>" using assms(2) by (intro mult_right_mono) simp_all
  finally have "\<bar>c * rc\<bar> div 16384 \<le> (16384 * \<bar>rc\<bar>) div 16384" by (rule zdiv_mono1) simp
  then show ?thesis by (simp add: abs_tdiv)
qed

lemma next_recent_cpu_exact:
  assumes "0 \<le> la" "la < 1000000000"
    and "- 20 \<le> nice r" "nice r \<le> 20"
    and "- 1000016384 \<le> recent_cpu r" "recent_cpu r \<le> 1000016384"
  shows "next_recent_cpu la r = recent_cpu_spec la (recent_cpu r) (nice r)"
proof -
  let ?c = "tdiv (2 * la * FP_F) (2 * la + FP_F)"
  note c = decay_coefficient [OF assms(1,2)]
  from c(2,3) have b: "\<bar>tdiv (?c * recent_cpu r) 16384\<bar> \<le> \<bar>recent_cpu r\<bar>"
    by (intro scaled_product_bound) (simp_all add: FP_F_def)
  with assms(5,6) have b': "- 1000016384 \<le> tdiv (?c * recent_cpu r) 16384"
    "tdiv (?c * recent_cpu r) 16384 \<le> 1000016384" by linarith+
  then have m: "mul_fp ?c (recent_cpu r) = tdiv (?c * recent_cpu r) 16384"
    by (simp add: mul_fp_def FP_F_def s32_id)
  have n: "s32 (nice r * 16384) = nice r * 16384" using assms(3,4) by (simp add: s32_id)
  have "add_fp_int (tdiv (?c * recent_cpu r) 16384) (nice r)
      = tdiv (?c * recent_cpu r) 16384 + nice r * 16384"
    using b' assms(3,4) unfolding add_fp_int_def FP_F_def n by (intro s32_id) linarith+
  then show ?thesis
    unfolding next_recent_cpu_def c(1) m recent_cpu_spec_def by (simp add: FP_F_def)
qed

lemma charged_recent_cpu:
  assumes "- 1000000000 \<le> recent_cpu (threads s t)" "recent_cpu (threads s t) \<le> 1000000000"
  shows "recent_cpu (threads (charged s cur) t)
      = recent_cpu (threads s t) + (if t = cur \<and> Some cur \<noteq> idle_thread s then FP_F else 0)"
    and "nice (threads (charged s cur) t) = nice (threads s t)"
proof -
  have "s32 (recent_cpu (threads s t) + 16384) = recent_cpu (threads s t) + 16384"
    using assms by (intro s32_id) linarith+
  then show "recent_cpu (threads (charged s cur) t)
      = recent_cpu (threads s t) + (if t = cur \<and> Some cur \<noteq> idle_thread s then FP_F else 0)"
    by (auto simp: charged_def upd_thread_def add_fp_int_def FP_F_def s32_id)
  show "nice (threads (charged s cur) t) = nice (threads s t)"
    by (simp add: charged_def upd_thread_def)
qed


text \<open>
  The idle thread and the all-threads list: \<^verbatim>\<open>thread_start\<close> takes the idle thread off
  the list (line 150); the list grows in \<^verbatim>\<open>init_thread\<close> only, and the handle of the idle
  thread is stored again by the idle thread itself only.
\<close>

lemma thread_start_idle_off_all_list:
  assumes "thread_start s page = Inr s'"
  shows "\<exists>i. idle_thread s' = Some i \<and> i \<notin> set (all_list s')"
  using assms
  by (auto simp: thread_start_def Let_def list_remove_elem_def list_remove_allelem_def
      split: sum.splits list.splits prod.splits if_splits)

lemma schedule_frame:
  assumes "schedule s = Inr s'"
  shows "all_list s' = all_list s \<and> idle_thread s' = idle_thread s"
  using schedule_Inr [OF assms] by simp

lemma thread_yield_frame:
  assumes "thread_yield s = Inr s'"
  shows "all_list s' = all_list s \<and> idle_thread s' = idle_thread s"
  using assms
  by (auto simp: thread_yield_def Let_def upd_thread_def push_ready_def
      split: sum.splits if_splits dest!: schedule_frame)

lemma thread_block_frame:
  assumes "thread_block s = Inr s'"
  shows "all_list s' = all_list s \<and> idle_thread s' = idle_thread s"
  using assms
  by (auto simp: thread_block_def Let_def upd_thread_def
      split: sum.splits if_splits dest!: schedule_frame)

lemma thread_wait_frame:
  assumes "thread_wait s n = Inr s'"
  shows "all_list s' = all_list s \<and> idle_thread s' = idle_thread s"
  using assms
  by (auto simp: thread_wait_def Let_def upd_thread_def list_push_back_def
      split: sum.splits if_splits dest!: schedule_frame)

lemma thread_unblock_frame:
  assumes "thread_unblock s t = Inr s'"
  shows "all_list s' = all_list s \<and> idle_thread s' = idle_thread s"
  using assms
  by (auto simp: thread_unblock_def Let_def upd_thread_def push_ready_def
      split: sum.splits if_splits dest!: schedule_frame)

lemma thread_exit_frame:
  assumes "thread_exit s = Inr s'"
  shows "all_list s' = removeAll (running s) (all_list s) \<and> idle_thread s' = idle_thread s"
  using assms
  by (auto simp: thread_exit_def Let_def upd_thread_def list_remove_allelem_def
      thread_current_def
      split: sum.splits if_splits dest!: schedule_frame)

lemma init_thread_frame:
  assumes "init_thread s t nm p = Inr s'"
  shows "all_list s' = all_list s @ [t] \<and> idle_thread s' = idle_thread s"
  using assms
  by (auto simp: init_thread_def Let_def upd_thread_def list_push_back_def
      split: sum.splits if_splits)

lemma thread_create_frame:
  assumes "thread_create s nm p page = Inr (tid_new, s')"
  shows "all_list s' = all_list s @ (case page of None \<Rightarrow> [] | Some t \<Rightarrow> [t])
    \<and> idle_thread s' = idle_thread s"
  using assms
  by (auto simp: thread_create_def Let_def allocate_tid_def upd_thread_def
      split: option.splits sum.splits if_splits
      dest!: init_thread_frame thread_unblock_frame)

lemma recompute_thread_frame:
  assumes "recompute_thread ticks cur t sf = Inr sf'"
  shows "all_list (fst sf') = all_list (fst sf) \<and> idle_thread (fst sf') = idle_thread (fst sf)"
  using assms
  by (cases sf)
    (auto simp: recompute_thread_def Let_def upd_thread_def list_remove_elem_def
      split: if_splits)

lemma recompute_pass_frame:
  assumes "recompute_pass ticks cur ts sf = Inr sf'"
  shows "all_list (fst sf') = all_list (fst sf) \<and> idle_thread (fst sf') = idle_thread (fst sf)"
  using assms
  by (induction ts arbitrary: sf)
    (auto split: sum.splits dest!: recompute_thread_frame)

lemma age_ready_frame:
  "all_list (age_ready ts s) = all_list s \<and> idle_thread (age_ready ts s) = idle_thread s"
  by (induction ts arbitrary: s) (simp_all add: upd_thread_def)

lemma wake_sleepers_lists:
  "all_list (fst (wake_sleepers cur es sf)) = all_list (fst sf)
   \<and> idle_thread (fst (wake_sleepers cur es sf)) = idle_thread (fst sf)"
  by (induction es arbitrary: sf)
    (simp_all add: Let_def upd_thread_def list_remove_elem_def push_ready_def)

lemma thread_tick_frame:
  assumes "thread_tick s ticks = Inr s'"
  shows "all_list s' = all_list s \<and> idle_thread s' = idle_thread s"
proof -
  from assms obtain cur where cur: "thread_current s = Inr cur"
    by (auto simp: thread_tick_def split: sum.splits)
  let ?s1 = "if Some cur = idle_thread s then s\<lparr>idle_ticks := idle_ticks s + 1\<rparr>
             else s\<lparr>kernel_ticks := kernel_ticks s + 1\<rparr>"
  from assms cur obtain sf where sf:
    "(if thread_mlfqs ?s1 then mlfqs_tick cur ticks ?s1 else Inr (aging_tick ?s1, False)) = Inr sf"
    and s': "all_list s' = all_list (fst (wake_sleepers cur (waiting_list (fst sf)) sf))"
      "idle_thread s' = idle_thread (fst (wake_sleepers cur (waiting_list (fst sf)) sf))"
    by (auto simp: thread_tick_def Let_def split: sum.splits if_splits)
  have "all_list (fst sf) = all_list s \<and> idle_thread (fst sf) = idle_thread s"
  proof (cases "thread_mlfqs ?s1")
    case True
    with sf have "mlfqs_tick cur ticks ?s1 = Inr sf" by simp
    then show ?thesis
      by (auto simp: mlfqs_tick_def Let_def upd_thread_def
          split: if_splits dest!: recompute_pass_frame)
  next
    case False
    with sf have "sf = (aging_tick ?s1, False)" by simp
    then show ?thesis by (simp add: aging_tick_def Let_def age_ready_frame)
  qed
  with s' show ?thesis by (simp add: wake_sleepers_lists)
qed

lemma scan_bands_frame:
  "scan_bands s cur i new_priority = Inr s'
    \<Longrightarrow> all_list s' = all_list s \<and> idle_thread s' = idle_thread s"
proof (induction s cur i new_priority rule: scan_bands.induct)
  case (1 s cur i new_priority)
  show ?case
  proof (cases "i > new_priority")
    case False
    with "1.prems" show ?thesis by simp
  next
    case gt: True
    show ?thesis
    proof (cases "ready_queues s i \<noteq> []")
      case False
      with gt "1.prems" have "scan_bands s cur (i - 1) new_priority = Inr s'" by simp
      from "1.IH"(2) [OF gt _ this] False show ?thesis by simp
    next
      case ne: True
      with gt "1.prems" obtain s1 where y: "thread_yield s = Inr s1"
        by (auto split: sum.splits)
      note f = thread_yield_frame [OF y]
      show ?thesis
      proof (cases "running s1 = cur")
        case True
        with gt ne y "1.prems" have "scan_bands s1 cur (i - 1) new_priority = Inr s'" by simp
        from "1.IH"(1) [OF gt ne y True this] f show ?thesis by simp
      next
        case False
        with gt ne y "1.prems" have "s' = s1" by simp
        with f show ?thesis by simp
      qed
    qed
  qed
qed

lemma thread_assign_priority_frame:
  assumes "thread_assign_priority s p cur = Inr s'"
  shows "all_list s' = all_list s \<and> idle_thread s' = idle_thread s"
proof -
  let ?s1 = "upd_thread cur (\<lambda>t. t\<lparr>priority := p\<rparr>) s"
  let ?s2 = "upd_thread cur (\<lambda>t. t\<lparr>priority_orig := p\<rparr>) ?s1"
  have f: "all_list ?s1 = all_list s" "idle_thread ?s1 = idle_thread s"
    "all_list ?s2 = all_list s" "idle_thread ?s2 = idle_thread s"
    by (simp_all add: upd_thread_def)
  show ?thesis
  proof (cases "thread_mlfqs ?s1 \<and> p < priority (threads s cur)")
    case True
    with assms have "scan_bands ?s1 cur (priority (threads s cur)) p = Inr s'"
      by (simp add: thread_assign_priority_def Let_def)
    from scan_bands_frame [OF this] f show ?thesis by simp
  next
    case False
    with assms have "thread_yield ?s2 = Inr s' \<or> s' = ?s2"
      by (simp add: thread_assign_priority_def Let_def split: option.splits if_splits)
    then show ?thesis
    proof
      assume "thread_yield ?s2 = Inr s'"
      from thread_yield_frame [OF this] f show ?thesis by simp
    next
      assume "s' = ?s2"
      with f show ?thesis by simp
    qed
  qed
qed

lemma thread_set_priority_frame:
  assumes "thread_set_priority s p = Inr s'"
  shows "all_list s' = all_list s \<and> idle_thread s' = idle_thread s"
  using assms
  by (auto simp: thread_set_priority_def upd_thread_def
      split: sum.splits if_splits dest!: thread_assign_priority_frame)

lemma thread_set_nice_frame:
  assumes "thread_set_nice s n = Inr s'"
  shows "all_list s' = all_list s \<and> idle_thread s' = idle_thread s"
  using assms
  by (auto simp: thread_set_nice_def Let_def upd_thread_def
      split: sum.splits if_splits dest!: thread_assign_priority_frame)

lemma idle_stays_off_all_list:
  assumes "\<forall>i. idle_thread s = Some i \<longrightarrow> i \<notin> set (all_list s)"
  shows "thread_tick s ticks = Inr s' \<Longrightarrow> \<forall>i. idle_thread s' = Some i \<longrightarrow> i \<notin> set (all_list s')"
    and "thread_yield s = Inr s' \<Longrightarrow> \<forall>i. idle_thread s' = Some i \<longrightarrow> i \<notin> set (all_list s')"
    and "thread_block s = Inr s' \<Longrightarrow> \<forall>i. idle_thread s' = Some i \<longrightarrow> i \<notin> set (all_list s')"
    and "thread_wait s n = Inr s' \<Longrightarrow> \<forall>i. idle_thread s' = Some i \<longrightarrow> i \<notin> set (all_list s')"
    and "thread_unblock s t = Inr s' \<Longrightarrow> \<forall>i. idle_thread s' = Some i \<longrightarrow> i \<notin> set (all_list s')"
    and "thread_exit s = Inr s' \<Longrightarrow> \<forall>i. idle_thread s' = Some i \<longrightarrow> i \<notin> set (all_list s')"
    and "thread_set_priority s p = Inr s' \<Longrightarrow> \<forall>i. idle_thread s' = Some i \<longrightarrow> i \<notin> set (all_list s')"
    and "thread_set_nice s k = Inr s' \<Longrightarrow> \<forall>i. idle_thread s' = Some i \<longrightarrow> i \<notin> set (all_list s')"
    and "thread_create s nm p page = Inr (tid_new, s') \<Longrightarrow> page \<noteq> idle_thread s
          \<Longrightarrow> \<forall>i. idle_thread s' = Some i \<longrightarrow> i \<notin> set (all_list s')"
    and "init_thread s t nm p = Inr s' \<Longrightarrow> idle_thread s \<noteq> Some t
          \<Longrightarrow> \<forall>i. idle_thread s' = Some i \<longrightarrow> i \<notin> set (all_list s')"
    and "idle_store_handle s = Inr s' \<Longrightarrow> idle_thread s = Some (running s)
          \<Longrightarrow> \<forall>i. idle_thread s' = Some i \<longrightarrow> i \<notin> set (all_list s')"
  using assms
  by (auto dest!: thread_tick_frame thread_yield_frame thread_block_frame thread_wait_frame
      thread_unblock_frame thread_exit_frame thread_set_priority_frame thread_set_nice_frame
      thread_create_frame init_thread_frame
      simp: idle_store_handle_def thread_current_def Let_def
      split: option.splits if_splits)

text \<open>
  C8. In MLFQ mode, on a tick whose count is a multiple of \<open>TIMER_FREQ\<close>, with a valid
  running thread, a load average in \<open>[0, 32768)\<close> (as a fixed-point value below
  \<open>2^29\<close>), fewer than 65536 threads on the all-threads list, each once, and the idle
  thread not on it, \<open>thread_tick\<close> returns; the new load average is
  \<open>(59/60) * load_avg + (1/60) * ready_threads\<close> in fixed point, which is
  \<open>16110 * load_avg div 2^14 + 273 * ready_threads\<close>, where \<open>ready_threads\<close> counts the
  threads of status READY or RUNNING other than the idle thread; and every thread of
  the list that is not NASCENT gets its \<open>recent_cpu\<close> recomputed from the new load
  average: the update comes before the pass. For a thread with nice in \<open>[-20, 20]\<close>
  and \<open>recent_cpu\<close> within \<open>10^9\<close> of zero the new value is the formula of section 4.E,
  \<open>(2 * load_avg) / (2 * load_avg + 1) * recent_cpu + nice\<close>, on the new load average
  and on the old \<open>recent_cpu\<close>, plus the tick charged to the running thread. The idle
  thread is off the all-threads list in the state \<open>thread_start\<close> returns, and it is
  still off it after the tick.
\<close>

theorem tick_updates_load_avg_first:
  assumes m: "thread_mlfqs s"
    and cur: "thread_current s = Inr cur"
    and tk: "tmod ticks TIMER_FREQ = 0"
    and la: "0 \<le> load_avg s" "load_avg s < 536870912"
    and len: "length (all_list s) < 65536"
    and d: "distinct (all_list s)"
    and idle: "\<forall>i. idle_thread s = Some i \<longrightarrow> i \<notin> set (all_list s)"
  shows "(\<exists>s'. thread_tick s ticks = Inr s'
    \<and> load_avg s' = next_load_avg (load_avg s) (ready_threads s)
    \<and> load_avg s' = 16110 * load_avg s div 16384 + 273 * ready_threads s
    \<and> (\<forall>t\<in>set (all_list s). status (threads s t) \<noteq> THREAD_NASCENT \<longrightarrow>
          recent_cpu (threads s' t) = next_recent_cpu (load_avg s') (threads (charged s cur) t))
    \<and> (\<forall>t\<in>set (all_list s). status (threads s t) \<noteq> THREAD_NASCENT
          \<and> - 20 \<le> nice (threads s t) \<and> nice (threads s t) \<le> 20
          \<and> - 1000000000 \<le> recent_cpu (threads s t)
          \<and> recent_cpu (threads s t) \<le> 1000000000 \<longrightarrow>
          recent_cpu (threads s' t)
            = recent_cpu_spec (load_avg s')
                (recent_cpu (threads s t) + (if t = cur then FP_F else 0))
                (nice (threads s t)))
    \<and> (\<forall>i. idle_thread s' = Some i \<longrightarrow> i \<notin> set (all_list s')))
   \<and> (thread_start s0 page = Inr s1 \<longrightarrow>
        (\<exists>i. idle_thread s1 = Some i \<and> i \<notin> set (all_list s1)))"
proof -
  let ?s1 = "if Some cur = idle_thread s then s\<lparr>idle_ticks := idle_ticks s + 1\<rparr>
             else s\<lparr>kernel_ticks := kernel_ticks s + 1\<rparr>"
  let ?L = "next_load_avg (load_avg s) (ready_threads s)"
  have s1: "load_avg ?s1 = load_avg s" "all_list ?s1 = all_list s"
    "idle_thread ?s1 = idle_thread s" "threads ?s1 = threads s" "thread_mlfqs ?s1"
    using m by simp_all
  have r: "ready_threads ?s1 = ready_threads s" by (simp add: ready_threads_def)
  have ch: "threads (charged ?s1 cur) = threads (charged s cur)"
    by (simp add: charged_def upd_thread_def)
  from mlfqs_tick_result [of ticks ?s1 cur] tk la len d idle
  obtain sf where sf: "mlfqs_tick cur ticks ?s1 = Inr sf" "load_avg (fst sf) = ?L"
    "\<forall>t\<in>set (all_list s). status (threads s t) \<noteq> THREAD_NASCENT \<longrightarrow>
          recent_cpu (threads (fst sf) t) = next_recent_cpu ?L (threads (charged s cur) t)"
    unfolding s1 r ch by blast
  let ?w = "wake_sleepers cur (waiting_list (fst sf)) sf"
  let ?s4 = "(fst ?w)\<lparr>thread_ticks := thread_ticks (fst ?w) + 1\<rparr>"
  let ?s' = "if thread_ticks ?s4 \<ge> TIME_SLICE \<or> snd ?w then ?s4\<lparr>yield_on_return := True\<rparr> else ?s4"
  from wake_sleepers_frame [of cur "waiting_list (fst sf)" sf]
  have w: "load_avg (fst ?w) = load_avg (fst sf)"
    "\<And>u. recent_cpu (threads (fst ?w) u) = recent_cpu (threads (fst sf) u)"
    by simp_all
  have res: "thread_tick s ticks = Inr ?s'"
    using cur sf(1) s1(5) by (simp add: thread_tick_def Let_def)
  have l': "load_avg ?s' = ?L" using w(1) sf(2) by simp
  have rc: "recent_cpu (threads ?s' u) = recent_cpu (threads (fst sf) u)" for u
    using w(2) by simp
  from ready_threads_bounds [of s] len
  have n: "0 \<le> ready_threads s" "ready_threads s < 65536" by simp_all
  have ex: "?L = 16110 * load_avg s div 16384 + 273 * ready_threads s"
    by (rule next_load_avg_exact(1) [OF la n])
  note L = next_load_avg_exact(2,3) [OF la n]
  have pass: "\<forall>t\<in>set (all_list s). status (threads s t) \<noteq> THREAD_NASCENT \<longrightarrow>
          recent_cpu (threads ?s' t) = next_recent_cpu (load_avg ?s') (threads (charged s cur) t)"
    using sf(3) unfolding l' rc .
  have formula: "\<forall>t\<in>set (all_list s). status (threads s t) \<noteq> THREAD_NASCENT
          \<and> - 20 \<le> nice (threads s t) \<and> nice (threads s t) \<le> 20
          \<and> - 1000000000 \<le> recent_cpu (threads s t)
          \<and> recent_cpu (threads s t) \<le> 1000000000 \<longrightarrow>
          recent_cpu (threads ?s' t)
            = recent_cpu_spec (load_avg ?s')
                (recent_cpu (threads s t) + (if t = cur then FP_F else 0))
                (nice (threads s t))"
  proof (intro ballI impI)
    fix t
    assume t: "t \<in> set (all_list s)"
      and h: "status (threads s t) \<noteq> THREAD_NASCENT
          \<and> - 20 \<le> nice (threads s t) \<and> nice (threads s t) \<le> 20
          \<and> - 1000000000 \<le> recent_cpu (threads s t)
          \<and> recent_cpu (threads s t) \<le> 1000000000"
    from t idle have ni: "t = cur \<longrightarrow> Some cur \<noteq> idle_thread s" by auto
    from h have b: "- 1000000000 \<le> recent_cpu (threads s t)"
      "recent_cpu (threads s t) \<le> 1000000000" by simp_all
    note c = charged_recent_cpu [OF b, of cur]
    from c(1) ni have c1: "recent_cpu (threads (charged s cur) t)
        = recent_cpu (threads s t) + (if t = cur then FP_F else 0)" by auto
    have "0 \<le> (if t = cur then FP_F else 0)" "(if t = cur then FP_F else 0) \<le> 16384"
      by (simp_all add: FP_F_def)
    with c1 b have cb: "- 1000016384 \<le> recent_cpu (threads (charged s cur) t)"
      "recent_cpu (threads (charged s cur) t) \<le> 1000016384"
      by linarith+
    from h c(2) have nb: "- 20 \<le> nice (threads (charged s cur) t)"
      "nice (threads (charged s cur) t) \<le> 20" by simp_all
    from pass t h have "recent_cpu (threads ?s' t)
        = next_recent_cpu ?L (threads (charged s cur) t)" unfolding l' by blast
    also have "\<dots> = recent_cpu_spec ?L (recent_cpu (threads (charged s cur) t))
        (nice (threads (charged s cur) t))"
      by (rule next_recent_cpu_exact [OF L nb cb])
    finally show "recent_cpu (threads ?s' t)
            = recent_cpu_spec (load_avg ?s')
                (recent_cpu (threads s t) + (if t = cur then FP_F else 0))
                (nice (threads s t))"
      unfolding l' c1 c(2) .
  qed
  from thread_tick_frame [OF res] idle
  have off: "\<forall>i. idle_thread ?s' = Some i \<longrightarrow> i \<notin> set (all_list ?s')" by simp
  from res l' ex pass formula off
  have "\<exists>s'. thread_tick s ticks = Inr s'
    \<and> load_avg s' = next_load_avg (load_avg s) (ready_threads s)
    \<and> load_avg s' = 16110 * load_avg s div 16384 + 273 * ready_threads s
    \<and> (\<forall>t\<in>set (all_list s). status (threads s t) \<noteq> THREAD_NASCENT \<longrightarrow>
          recent_cpu (threads s' t) = next_recent_cpu (load_avg s') (threads (charged s cur) t))
    \<and> (\<forall>t\<in>set (all_list s). status (threads s t) \<noteq> THREAD_NASCENT
          \<and> - 20 \<le> nice (threads s t) \<and> nice (threads s t) \<le> 20
          \<and> - 1000000000 \<le> recent_cpu (threads s t)
          \<and> recent_cpu (threads s t) \<le> 1000000000 \<longrightarrow>
          recent_cpu (threads s' t)
            = recent_cpu_spec (load_avg s')
                (recent_cpu (threads s t) + (if t = cur then FP_F else 0))
                (nice (threads s t)))
    \<and> (\<forall>i. idle_thread s' = Some i \<longrightarrow> i \<notin> set (all_list s'))"
    by (intro exI [of _ ?s'] conjI) (simp only:)+
  moreover have "thread_start s0 page = Inr s1 \<longrightarrow>
        (\<exists>i. idle_thread s1 = Some i \<and> i \<notin> set (all_list s1))"
    by (blast dest: thread_start_idle_off_all_list)
  ultimately show ?thesis by (rule conjI)
qed

theorem tick_updates_load_avg_first_witness:
  "thread_mlfqs (state_of with_worker_mlfqs)
   \<and> thread_current (state_of with_worker_mlfqs) = Inr 1
   \<and> tmod 100 TIMER_FREQ = 0
   \<and> load_avg (state_of with_worker_mlfqs) = 0
   \<and> all_list (state_of with_worker_mlfqs) = [1, 3]
   \<and> idle_thread (state_of with_worker_mlfqs) = Some 2
   \<and> ready_threads (state_of with_worker_mlfqs) = 2
   \<and> recent_cpu (threads (state_of with_worker_mlfqs) 1) = 0
   \<and> recent_cpu (threads (state_of with_worker_mlfqs) 3) = 0
   \<and> (\<exists>s'. thread_tick (state_of with_worker_mlfqs) 100 = Inr s'
        \<and> load_avg s' = 546
        \<and> recent_cpu (threads s' 1) = 1023
        \<and> recent_cpu (threads s' 3) = 0
        \<and> idle_thread s' = Some 2 \<and> 2 \<notin> set (all_list s'))
   \<and> \<not> isl (thread_start (state_of (thread_init (boot True))) (Some 2))
   \<and> all_list (state_of (thread_init (boot True))) = [1]
   \<and> idle_thread (state_of (thread_start (state_of (thread_init (boot True))) (Some 2))) = Some 2
   \<and> 2 \<notin> set (all_list (state_of (thread_start (state_of (thread_init (boot True))) (Some 2))))"
proof -
  let ?s = "state_of with_worker_mlfqs"
  let ?b = "state_of (thread_init (boot True))"
  have m: "thread_mlfqs ?s" by code_simp
  have cur: "thread_current ?s = Inr 1" by code_simp
  have tk: "tmod 100 TIMER_FREQ = 0" by code_simp
  have la0: "load_avg ?s = 0" by code_simp
  have al: "all_list ?s = [1, 3]" by code_simp
  have id: "idle_thread ?s = Some 2" by code_simp
  have st: "status (threads ?s 1) \<noteq> THREAD_NASCENT" "status (threads ?s 3) \<noteq> THREAD_NASCENT"
    by code_simp+
  have rt: "ready_threads ?s = 2" by code_simp
  have ni: "nice (threads ?s 1) = 0" "nice (threads ?s 3) = 0" by code_simp+
  have r0: "recent_cpu (threads ?s 1) = 0" "recent_cpu (threads ?s 3) = 0" by code_simp+
  have la: "0 \<le> load_avg ?s" "load_avg ?s < 536870912" by (simp_all add: la0)
  have len: "length (all_list ?s) < 65536" by (simp add: al)
  have d: "distinct (all_list ?s)" by (simp add: al)
  have idle: "\<forall>i. idle_thread ?s = Some i \<longrightarrow> i \<notin> set (all_list ?s)" by (simp add: al id)
  have ok: "\<not> isl (thread_start ?b (Some 2))" by code_simp
  then have e: "thread_start ?b (Some 2) = Inr (state_of (thread_start ?b (Some 2)))"
    by (cases "thread_start ?b (Some 2)") (simp_all add: state_of_def)
  have a0: "all_list ?b = [1]" by code_simp
  have i1: "idle_thread (state_of (thread_start ?b (Some 2))) = Some 2" by code_simp
  note T = tick_updates_load_avg_first [OF m cur tk la len d idle,
      of ?b "Some 2" "state_of (thread_start ?b (Some 2))"]
  from T [THEN conjunct2] e i1
  have off: "2 \<notin> set (all_list (state_of (thread_start ?b (Some 2))))" by auto
  from T [THEN conjunct1]
  obtain s' where s': "thread_tick ?s 100 = Inr s'"
    "load_avg s' = 16110 * load_avg ?s div 16384 + 273 * ready_threads ?s"
    "\<forall>t\<in>set (all_list ?s). status (threads ?s t) \<noteq> THREAD_NASCENT
          \<and> - 20 \<le> nice (threads ?s t) \<and> nice (threads ?s t) \<le> 20
          \<and> - 1000000000 \<le> recent_cpu (threads ?s t)
          \<and> recent_cpu (threads ?s t) \<le> 1000000000 \<longrightarrow>
          recent_cpu (threads s' t)
            = recent_cpu_spec (load_avg s')
                (recent_cpu (threads ?s t) + (if t = 1 then FP_F else 0))
                (nice (threads ?s t))"
    "\<forall>i. idle_thread s' = Some i \<longrightarrow> i \<notin> set (all_list s')"
    by blast
  from s'(2) have l: "load_avg s' = 546" by (simp add: la0 rt)
  have v1: "recent_cpu_spec 546 (0 + FP_F) 0 = 1023" by code_simp
  have v3: "recent_cpu_spec 546 (0 + 0) 0 = 0" by code_simp
  from s'(3) st ni r0 have "recent_cpu (threads s' 1) = recent_cpu_spec 546 (0 + FP_F) 0"
    "recent_cpu (threads s' 3) = recent_cpu_spec 546 (0 + 0) 0"
    unfolding l al by simp_all
  then have rc: "recent_cpu (threads s' 1) = 1023" "recent_cpu (threads s' 3) = 0"
    unfolding v1 v3 .
  from thread_tick_frame [OF s'(1)] id have i': "idle_thread s' = Some 2" by simp
  with s'(4) have "2 \<notin> set (all_list s')" by simp
  with s'(1) l rc i' have "\<exists>s'. thread_tick ?s 100 = Inr s'
        \<and> load_avg s' = 546
        \<and> recent_cpu (threads s' 1) = 1023
        \<and> recent_cpu (threads s' 3) = 0
        \<and> idle_thread s' = Some 2 \<and> 2 \<notin> set (all_list s')" by blast
  with m cur tk la0 al id rt r0 ok a0 i1 off show ?thesis by blast
qed

end
